theory Spec2Isabelle
  imports Main
begin

section \<open>JavaScript values\<close>

text \<open>
  Every value that crosses the bridge is a JSON-like JavaScript value. Numbers are
  restricted to integers. An object is the list of its own properties in enumeration
  order; where a key occurs twice the first occurrence is the property.
  Property reads see own string-keyed properties of plain objects only: properties
  inherited from a prototype (\<open>length\<close>, \<open>constructor\<close>, ...) and the
  properties of arrays and primitives are read as \<open>undefined\<close>.
\<close>

datatype json =
    JUndefined
  | JNull
  | JBool bool
  | JNum int
  | JStr string
  | JArr "json list"
  | JObj "(string \<times> json) list"

datatype error =
    Error json      \<comment> \<open>\<open>new Error(message)\<close>, with the value handed to the constructor\<close>
  | TypeError       \<comment> \<open>raised by the runtime, e.g. a property read on \<open>null\<close>\<close>

text \<open>
  A promise is pending for ever, rejected or fulfilled. An \<open>await\<close> of a pending
  promise never returns, so a pending step makes the whole operation pending.
\<close>

datatype 'a promise = Pending | Rejected error | Fulfilled 'a

fun truthy :: "json \<Rightarrow> bool" where
  "truthy JUndefined = False"
| "truthy JNull = False"
| "truthy (JBool b) = b"
| "truthy (JNum n) = (n \<noteq> 0)"
| "truthy (JStr s) = (s \<noteq> [])"
| "truthy (JArr xs) = True"
| "truthy (JObj kvs) = True"

fun nullish :: "json \<Rightarrow> bool" where
  "nullish JUndefined = True"
| "nullish JNull = True"
| "nullish v = False"

text \<open>\<open>a || b\<close> and \<open>a ?? b\<close>.\<close>

definition js_or :: "json \<Rightarrow> json \<Rightarrow> json" where
  "js_or a b = (if truthy a then a else b)"

definition coalesce :: "json \<Rightarrow> json \<Rightarrow> json" where
  "coalesce a b = (if nullish a then b else a)"

fun typeof :: "json \<Rightarrow> string" where
  "typeof JUndefined = ''undefined''"
| "typeof JNull = ''object''"
| "typeof (JBool b) = ''boolean''"
| "typeof (JNum n) = ''number''"
| "typeof (JStr s) = ''string''"
| "typeof (JArr xs) = ''object''"
| "typeof (JObj kvs) = ''object''"

fun isArray :: "json \<Rightarrow> bool" where
  "isArray (JArr xs) = True"
| "isArray v = False"

text \<open>\<open>v?.[k]\<close>: \<open>undefined\<close> on \<open>null\<close> and \<open>undefined\<close>, the property otherwise.\<close>

fun opt_get :: "json \<Rightarrow> string \<Rightarrow> json" where
  "opt_get (JObj kvs) k = (case map_of kvs k of Some v \<Rightarrow> v | None \<Rightarrow> JUndefined)"
| "opt_get v k = JUndefined"

text \<open>\<open>v[k]\<close> and \<open>v.k\<close>: a TypeError on \<open>null\<close> and \<open>undefined\<close>.\<close>

definition get_prop :: "json \<Rightarrow> string \<Rightarrow> error + json" where
  "get_prop v k = (if nullish v then Inl TypeError else Inr (opt_get v k))"

text \<open>\<open>v?.[0]\<close>.\<close>

fun opt_first :: "json \<Rightarrow> json" where
  "opt_first (JArr (x # xs)) = x"
| "opt_first (JStr (c # cs)) = JStr [c]"
| "opt_first (JObj kvs) = opt_get (JObj kvs) ''0''"
| "opt_first v = JUndefined"

subsection \<open>Conversion to a string\<close>

function nat_digits :: "nat \<Rightarrow> string" where
  "nat_digits n =
     (if n < 10 then [char_of (48 + n)]
      else nat_digits (n div 10) @ [char_of (48 + n mod 10)])"
  by pat_completeness auto
termination
  by (relation "measure id") auto

declare nat_digits.simps [simp del]

definition int_to_string :: "int \<Rightarrow> string" where
  "int_to_string i = (if i < 0 then CHR ''-'' # nat_digits (nat (- i)) else nat_digits (nat i))"

fun join_comma :: "string list \<Rightarrow> string" where
  "join_comma [] = []"
| "join_comma [s] = s"
| "join_comma (s # t # ss) = s @ '','' @ join_comma (t # ss)"

text \<open>
  \<open>String(v)\<close>, which is also the conversion of a computed property key and of the left
  operand of \<open>v + '__r'\<close>. An array joins its elements with commas, \<open>null\<close> and
  \<open>undefined\<close> elements giving the empty string.
\<close>

fun to_string :: "json \<Rightarrow> string" where
  "to_string JUndefined = ''undefined''"
| "to_string JNull = ''null''"
| "to_string (JBool b) = (if b then ''true'' else ''false'')"
| "to_string (JNum n) = int_to_string n"
| "to_string (JStr s) = s"
| "to_string (JArr xs) = join_comma (map (\<lambda>x. if nullish x then [] else to_string x) xs)"
| "to_string (JObj kvs) = ''[object Object]''"

subsection \<open>\<open>String.prototype.split('.')\<close>\<close>

text \<open>
  The accumulator holds the segment being read. The result is never empty:
  \<open>''''.split('.')\<close> is \<open>['''']\<close>.
\<close>

fun split_acc :: "string \<Rightarrow> string \<Rightarrow> string list" where
  "split_acc acc [] = [rev acc]"
| "split_acc acc (c # cs) =
     (if c = CHR ''.'' then rev acc # split_acc [] cs else split_acc (c # acc) cs)"

definition split_dot :: "string \<Rightarrow> string list" where
  "split_dot s = split_acc [] s"

section \<open>The bridge and the client object\<close>

text \<open>
  The response envelope handed to the completion callback: its \<open>type\<close> and
  \<open>data\<close> properties, \<open>undefined\<close> when the property is absent.
\<close>

record envelope =
  etype :: json
  edata :: json

text \<open>
  What a call of the handle's optional \<open>init()\<close> does: it returns, it throws, or the
  handle has no such member and the call itself is a TypeError.
\<close>

datatype init_member = InitReturns | InitThrows | InitAbsent

text \<open>
  The bridge handle. \<open>host_send\<close> is the handle's \<open>send(request, callback)\<close>: given
  the requests the host has received so far and the new request, the envelope it calls
  back with, or \<open>None\<close> when it never calls back. \<open>version\<close> is \<open>undefined\<close>
  on a handle that has none. \<open>bridge_init\<close> is the handle's \<open>init()\<close>.
\<close>

record bridge_handle =
  host_send :: "json list \<Rightarrow> json \<Rightarrow> envelope option"
  version :: json
  bridge_init :: init_member

text \<open>The embedded host object \<open>window.parent.pulsar\<close>.\<close>

record embedded =
  ebridge :: bridge_handle

record Pulsar =
  bridge :: "bridge_handle option"
  pulsar :: "embedded option"
  isInitialized :: bool

definition constructor :: Pulsar where
  "constructor = \<lparr>bridge = None, pulsar = None, isInitialized = False\<rparr>"

definition NotConnected :: error where
  "NotConnected = Error (JStr ''Pulsar bridge not initialized. Call init() first.'')"

definition AlreadyConnected :: error where
  "AlreadyConnected = Error (JStr ''Pulsar is already initialized.'')"

definition HandshakeTimeout :: error where
  "HandshakeTimeout = Error (JStr ''Pulsar bridge initialization timed out.'')"

definition generic_message :: json where
  "generic_message = JStr ''Unknown Pulsar JSAPI error''"

text \<open>
  \<open>_send(request)\<close>. The second component is the list of requests the host has
  received: it grows exactly when the bridge's send primitive is invoked.
\<close>

definition pulsar_send :: "Pulsar \<Rightarrow> json \<Rightarrow> json list \<Rightarrow> json promise \<times> json list" where
  "pulsar_send this request lg =
     (case bridge this of
        None \<Rightarrow> (Rejected NotConnected, lg)
      | Some b \<Rightarrow>
          (case host_send b lg request of
             None \<Rightarrow> (Pending, lg @ [request])
           | Some response \<Rightarrow>
               if etype response = JStr ''error''
               then (Rejected (Error (js_or (edata response) generic_message)), lg @ [request])
               else (Fulfilled (edata response), lg @ [request])))"

definition read :: "Pulsar \<Rightarrow> json \<Rightarrow> json \<Rightarrow> json list \<Rightarrow> json promise \<times> json list" where
  "read this objectName filters lg =
     pulsar_send this
       (JObj [(''type'', JStr ''read''), (''object'', objectName), (''data'', filters)]) lg"

section \<open>Operations that decode a legacy string payload\<close>

text \<open>
  \<open>JSON.parse\<close> is a parameter \<open>jp\<close> of every operation that calls it:
  \<open>None\<close> is a SyntaxError.
\<close>

type_synonym parser = "string \<Rightarrow> json option"

text \<open>\<open>...(c && {k: v})\<close> inside an object literal.\<close>

definition spread_if :: "bool \<Rightarrow> string \<Rightarrow> json \<Rightarrow> (string \<times> json) list" where
  "spread_if c k v = (if c then [(k, v)] else [])"

definition getLayout_request :: "json \<Rightarrow> json \<Rightarrow> json \<Rightarrow> json" where
  "getLayout_request objectName recordTypeId recordTypeName =
     JObj [(''type'', JStr ''getLayout''), (''object'', objectName),
           (''data'', JObj (spread_if (truthy recordTypeId) ''RecordTypeId'' recordTypeId @
                            spread_if (\<not> truthy recordTypeId \<and> truthy recordTypeName)
                              ''RecordTypeName'' recordTypeName))]"

definition getLayout_result :: "parser \<Rightarrow> json \<Rightarrow> json promise" where
  "getLayout_result jp response =
     (case response of
        JStr s \<Rightarrow>
          (case jp s of
             Some v \<Rightarrow> Fulfilled v
           | None \<Rightarrow> Rejected (Error (JStr ''Failed to parse layout response'')))
      | _ \<Rightarrow>
          if typeof response = ''object'' \<and> response \<noteq> JNull then Fulfilled response
          else Rejected (Error (JStr
                 (''Unexpected return type. Expected JSON object or string, but received '' @
                  typeof response @ ''.''))))"

definition getLayout ::
  "parser \<Rightarrow> Pulsar \<Rightarrow> json \<Rightarrow> json \<Rightarrow> json \<Rightarrow> json list \<Rightarrow> json promise \<times> json list" where
  "getLayout jp this objectName recordTypeId recordTypeName lg =
     (case pulsar_send this (getLayout_request objectName recordTypeId recordTypeName) lg of
        (Fulfilled response, lg') \<Rightarrow> (getLayout_result jp response, lg')
      | (Rejected e, lg') \<Rightarrow> (Rejected e, lg')
      | (Pending, lg') \<Rightarrow> (Pending, lg'))"

text \<open>A parameter with a default takes it when the argument is \<open>undefined\<close>.\<close>

definition default_arg :: "json \<Rightarrow> json \<Rightarrow> json" where
  "default_arg v d = (if v = JUndefined then d else v)"

definition valid_objectName :: "json \<Rightarrow> bool" where
  "valid_objectName objectName = (truthy objectName \<and> typeof objectName = ''string'')"

definition getLayoutSections_request :: "json \<Rightarrow> json \<Rightarrow> json \<Rightarrow> json \<Rightarrow> json" where
  "getLayoutSections_request objectName recordTypeId recordTypeName layoutMode =
     JObj [(''type'', JStr ''getLayoutSections''), (''object'', objectName),
           (''data'', JObj ((if truthy recordTypeName then [(''RecordTypeName'', recordTypeName)]
                             else if truthy recordTypeId then [(''RecordTypeId'', recordTypeId)]
                             else []) @
                            (if truthy layoutMode then [(''LayoutMode'', layoutMode)] else [])))]"

definition getLayoutSections_result :: "parser \<Rightarrow> json \<Rightarrow> json promise" where
  "getLayoutSections_result jp response =
     (case response of
        JStr s \<Rightarrow>
          (case jp s of
             Some v \<Rightarrow> Fulfilled v
           | None \<Rightarrow> Rejected (Error (JStr ''Failed to parse layout sections response'')))
      | _ \<Rightarrow>
          if isArray response then Fulfilled response
          else Rejected (Error (JStr
                 (''Unexpected return type from getLayoutSections. Expected array or JSON string, but received '' @
                  typeof response @ ''.''))))"

definition getLayoutSections ::
  "parser \<Rightarrow> Pulsar \<Rightarrow> json \<Rightarrow> json \<Rightarrow> json \<Rightarrow> json \<Rightarrow> json list \<Rightarrow> json promise \<times> json list" where
  "getLayoutSections jp this objectName recordTypeId recordTypeName layoutMode0 lg =
     (let layoutMode = default_arg layoutMode0 (JStr ''display'') in
      if \<not> valid_objectName objectName
      then (Rejected (Error (JStr ''getLayoutSections requires a valid objectName string.'')), lg)
      else
        (case pulsar_send this
                (getLayoutSections_request objectName recordTypeId recordTypeName layoutMode) lg of
           (Fulfilled response, lg') \<Rightarrow> (getLayoutSections_result jp response, lg')
         | (Rejected e, lg') \<Rightarrow> (Rejected e, lg')
         | (Pending, lg') \<Rightarrow> (Pending, lg')))"

definition getLayoutFields_request :: "json \<Rightarrow> json \<Rightarrow> json \<Rightarrow> json \<Rightarrow> json" where
  "getLayoutFields_request objectName recordTypeId recordTypeName layoutMode =
     JObj [(''type'', JStr ''getLayoutFields''), (''object'', objectName),
           (''data'', JObj (spread_if (truthy recordTypeName) ''RecordTypeName'' recordTypeName @
                            spread_if (\<not> truthy recordTypeName \<and> truthy recordTypeId)
                              ''RecordTypeId'' recordTypeId @
                            spread_if (truthy layoutMode) ''LayoutMode'' layoutMode))]"

definition getLayoutFields_result :: "parser \<Rightarrow> json \<Rightarrow> json promise" where
  "getLayoutFields_result jp response =
     (case response of
        JStr s \<Rightarrow>
          (case jp s of
             Some v \<Rightarrow> Fulfilled v
           | None \<Rightarrow> Rejected (Error (JStr ''Failed to parse layout fields response'')))
      | _ \<Rightarrow>
          if isArray response then Fulfilled response
          else Rejected (Error (JStr
                 (''Unexpected return type from getLayoutFields. Expected array or JSON string, but received '' @
                  typeof response @ ''.''))))"

definition getLayoutFields ::
  "parser \<Rightarrow> Pulsar \<Rightarrow> json \<Rightarrow> json \<Rightarrow> json \<Rightarrow> json \<Rightarrow> json list \<Rightarrow> json promise \<times> json list" where
  "getLayoutFields jp this objectName recordTypeId recordTypeName layoutMode0 lg =
     (let layoutMode = default_arg layoutMode0 (JStr ''display'') in
      if \<not> valid_objectName objectName
      then (Rejected (Error (JStr ''getLayoutFields requires a valid objectName string.'')), lg)
      else
        (case pulsar_send this
                (getLayoutFields_request objectName recordTypeId recordTypeName layoutMode) lg of
           (Fulfilled response, lg') \<Rightarrow> (getLayoutFields_result jp response, lg')
         | (Rejected e, lg') \<Rightarrow> (Rejected e, lg')
         | (Pending, lg') \<Rightarrow> (Pending, lg')))"

definition getSObjectSchema_request :: "json \<Rightarrow> json" where
  "getSObjectSchema_request objectName =
     JObj [(''type'', JStr ''getSObjectSchema''), (''object'', objectName), (''data'', JObj [])]"

definition getSObjectSchema_result :: "parser \<Rightarrow> json \<Rightarrow> json promise" where
  "getSObjectSchema_result jp response =
     (case response of
        JStr s \<Rightarrow>
          (case jp s of
             Some v \<Rightarrow> Fulfilled v
           | None \<Rightarrow> Rejected (Error (JStr ''Failed to parse schema response'')))
      | _ \<Rightarrow>
          Rejected (Error (JStr
            (''Unexpected return type. Expected JSON string but received '' @
             typeof response @ ''.''))))"

definition getSObjectSchema ::
  "parser \<Rightarrow> Pulsar \<Rightarrow> json \<Rightarrow> json list \<Rightarrow> json promise \<times> json list" where
  "getSObjectSchema jp this objectName lg =
     (case pulsar_send this (getSObjectSchema_request objectName) lg of
        (Fulfilled response, lg') \<Rightarrow> (getSObjectSchema_result jp response, lg')
      | (Rejected e, lg') \<Rightarrow> (Rejected e, lg')
      | (Pending, lg') \<Rightarrow> (Pending, lg'))"

section \<open>The relationship path resolver\<close>

text \<open>\<open>Object.values(v)\<close>: a TypeError on \<open>null\<close> and \<open>undefined\<close>.\<close>

fun own_values :: "string list \<Rightarrow> (string \<times> json) list \<Rightarrow> json list" where
  "own_values seen [] = []"
| "own_values seen ((k, v) # kvs) =
     (if k \<in> set seen then own_values seen kvs else v # own_values (k # seen) kvs)"

fun object_values :: "json \<Rightarrow> error + json list" where
  "object_values JUndefined = Inl TypeError"
| "object_values JNull = Inl TypeError"
| "object_values (JObj kvs) = Inr (own_values [] kvs)"
| "object_values (JArr xs) = Inr xs"
| "object_values (JStr s) = Inr (map (\<lambda>c. JStr [c]) s)"
| "object_values v = Inr []"

text \<open>
  \<open>.find(f => f.relationshipName === field)\<close>: the first element whose
  \<open>relationshipName\<close> is the segment, \<open>undefined\<close> when there is none, a TypeError
  when an element met on the way is \<open>null\<close> or \<open>undefined\<close>.
\<close>

fun find_relationship :: "json list \<Rightarrow> string \<Rightarrow> error + json" where
  "find_relationship [] field = Inr JUndefined"
| "find_relationship (f # fs) field =
     (case get_prop f ''relationshipName'' of
        Inl e \<Rightarrow> Inl e
      | Inr rn \<Rightarrow> if rn = JStr field then Inr f else find_relationship fs field)"

text \<open>
  The two type hints of a polymorphic reference:
  \<open>currentRecord?.[relationshipField.name + '__r']?.attributes?.type\<close> and
  \<open>currentRecord?.[relationshipField.name]?.attributes?.type\<close>.
\<close>

definition hint_expanded :: "json \<Rightarrow> json \<Rightarrow> json" where
  "hint_expanded relationshipField currentRecord =
     opt_get (opt_get (opt_get currentRecord
       (to_string (opt_get relationshipField ''name'') @ ''__r'')) ''attributes'') ''type''"

definition hint_raw :: "json \<Rightarrow> json \<Rightarrow> json" where
  "hint_raw relationshipField currentRecord =
     opt_get (opt_get (opt_get currentRecord
       (to_string (opt_get relationshipField ''name''))) ''attributes'') ''type''"

text \<open>
  The value of \<open>refType\<close> before the test \<open>if (!refType) return null\<close>. The
  relationship field is truthy here, so reading its properties cannot fail.
\<close>

definition ref_type :: "json \<Rightarrow> json \<Rightarrow> json" where
  "ref_type relationshipField currentRecord =
     (case opt_get relationshipField ''referenceTo'' of
        JArr ts \<Rightarrow>
          if length ts = 1 then opt_first (JArr ts)
          else js_or (hint_expanded relationshipField currentRecord)
                 (js_or (hint_raw relationshipField currentRecord) (opt_first (JArr ts)))
      | _ \<Rightarrow> JNull)"

text \<open>What one run of the loop body does: go on with a new record and type, or leave the loop.\<close>

datatype step = Continue json json | Return json | Throw error | Hang

definition loop_body ::
  "parser \<Rightarrow> Pulsar \<Rightarrow> string \<Rightarrow> bool \<Rightarrow> json \<Rightarrow> json \<Rightarrow> json list \<Rightarrow> step \<times> json list" where
  "loop_body jp this field is_last currentRecord currentType lg =
     (case getSObjectSchema jp this currentType lg of
        (Pending, lg1) \<Rightarrow> (Hang, lg1)
      | (Rejected e, lg1) \<Rightarrow> (Throw e, lg1)
      | (Fulfilled schema, lg1) \<Rightarrow>
          if is_last then (Return (coalesce (opt_get currentRecord field) JNull), lg1)
          else
            (case get_prop schema ''fields'' of
               Inl e \<Rightarrow> (Throw e, lg1)
             | Inr flds \<Rightarrow>
                 (case object_values flds of
                    Inl e \<Rightarrow> (Throw e, lg1)
                  | Inr vs \<Rightarrow>
                      (case find_relationship vs field of
                         Inl e \<Rightarrow> (Throw e, lg1)
                       | Inr relationshipField \<Rightarrow>
                           if \<not> truthy relationshipField then (Return JNull, lg1)
                           else
                             (let refId = opt_get currentRecord
                                            (to_string (opt_get relationshipField ''name''))
                              in if \<not> truthy refId then (Return JNull, lg1)
                                 else
                                   (let refType = ref_type relationshipField currentRecord
                                    in if \<not> truthy refType then (Return JNull, lg1)
                                       else
                                         (case read this refType (JObj [(''Id'', refId)]) lg1 of
                                            (Pending, lg2) \<Rightarrow> (Hang, lg2)
                                          | (Rejected e, lg2) \<Rightarrow> (Throw e, lg2)
                                          | (Fulfilled results, lg2) \<Rightarrow>
                                              if \<not> truthy (opt_first results)
                                              then (Return JNull, lg2)
                                              else (Continue (opt_first results) refType,
                                                    lg2))))))))"

text \<open>The \<open>for\<close> loop over the segments, and the \<open>return null\<close> after it.\<close>

fun walk ::
  "parser \<Rightarrow> Pulsar \<Rightarrow> string list \<Rightarrow> json \<Rightarrow> json \<Rightarrow> json list \<Rightarrow> json promise \<times> json list" where
  "walk jp this [] currentRecord currentType lg = (Fulfilled JNull, lg)"
| "walk jp this (field # rest) currentRecord currentType lg =
     (case loop_body jp this field (rest = []) currentRecord currentType lg of
        (Continue r t, lg') \<Rightarrow> walk jp this rest r t lg'
      | (Return v, lg') \<Rightarrow> (Fulfilled v, lg')
      | (Throw e, lg') \<Rightarrow> (Rejected e, lg')
      | (Hang, lg') \<Rightarrow> (Pending, lg'))"

text \<open>The segments left after the root type qualifier is stripped.\<close>

definition strip_root :: "string list \<Rightarrow> json \<Rightarrow> string list" where
  "strip_root parts sObjectType =
     (case parts of
        [] \<Rightarrow> []
      | p # ps \<Rightarrow> if JStr p = sObjectType then ps else parts)"

definition resolveSOQLFieldPath ::
  "parser \<Rightarrow> Pulsar \<Rightarrow> json \<Rightarrow> json \<Rightarrow> json \<Rightarrow> json list \<Rightarrow> json promise \<times> json list" where
  "resolveSOQLFieldPath jp this rcd path sObjectType lg =
     (case path of
        JStr s \<Rightarrow> walk jp this (strip_root (split_dot s) sObjectType) rcd sObjectType lg
      | _ \<Rightarrow> (Rejected TypeError, lg))"

text \<open>
  The loop variables at the start of the iteration reached after \<open>n\<close> completed hops:
  the segments still to do, \<open>currentRecord\<close>, \<open>currentType\<close> and the requests sent
  so far. \<open>None\<close> when the loop was left before.
\<close>

fun loop_state ::
  "parser \<Rightarrow> Pulsar \<Rightarrow> string list \<Rightarrow> json \<Rightarrow> json \<Rightarrow> json list \<Rightarrow> nat \<Rightarrow>
   (string list \<times> json \<times> json \<times> json list) option" where
  "loop_state jp this parts r t lg 0 = Some (parts, r, t, lg)"
| "loop_state jp this [] r t lg (Suc n) = None"
| "loop_state jp this (field # rest) r t lg (Suc n) =
     (case loop_body jp this field (rest = []) r t lg of
        (Continue r' t', lg') \<Rightarrow> loop_state jp this rest r' t' lg' n
      | _ \<Rightarrow> None)"

text \<open>Recognisers of the two requests the resolver sends.\<close>

definition is_schema_request :: "json \<Rightarrow> bool" where
  "is_schema_request rq = (opt_get rq ''type'' = JStr ''getSObjectSchema'')"

definition is_read_request :: "json \<Rightarrow> bool" where
  "is_read_request rq = (opt_get rq ''type'' = JStr ''read'')"

text \<open>
  A sequence of requests that starts with the schema fetch of type \<open>t\<close> and goes on
  read, schema fetch, read, ..., each schema fetch being for the type of the read before it.
\<close>

fun hops_from_schema :: "json \<Rightarrow> json list \<Rightarrow> bool"
  and hops_from_read :: "json list \<Rightarrow> bool" where
  "hops_from_schema t [] = True"
| "hops_from_schema t (rq # rqs) = (rq = getSObjectSchema_request t \<and> hops_from_read rqs)"
| "hops_from_read [] = True"
| "hops_from_read (rq # rqs) =
     (is_read_request rq \<and> hops_from_schema (opt_get rq ''object'') rqs)"

section \<open>The connection handshake\<close>

text \<open>
  \<open>init()\<close> talks to the document (its listeners of the event
  \<open>WebViewJavascriptBridgeReady\<close>) and to the timer queue, and what it starts is
  finished later by an event or by a timer. The world holds the client object and
  what \<open>init()\<close> reads and changes around it:
  \<^item> \<open>parent_pulsar\<close> is \<open>window.parent.pulsar\<close> when
    \<open>window.parent?.pulsar?.bridge\<close> is truthy, \<open>None\<close> otherwise;
  \<^item> \<open>listeners\<close> are the registered \<open>onBridgeReady\<close> closures, each named by
    the number of the \<open>init()\<close> call that made it;
  \<^item> \<open>timers\<close> are the armed timers, each with the call that armed it and the
    time at which it is due;
  \<^item> \<open>promises\<close> holds the promise returned by each \<open>init()\<close> call;
  \<^item> \<open>bridge_inits\<close> counts the calls of \<open>init()\<close> on a bridge handle.
\<close>

record world =
  client :: Pulsar
  parent_pulsar :: "embedded option"
  listeners :: "nat list"
  timers :: "(nat \<times> nat) list"
  clock :: nat
  promises :: "unit promise list"
  bridge_inits :: nat

definition new_world :: "embedded option \<Rightarrow> world" where
  "new_world pp =
     \<lparr>client = constructor, parent_pulsar = pp, listeners = [], timers = [], clock = 0,
      promises = [], bridge_inits = 0\<rparr>"

text \<open>\<open>resolve\<close> and \<open>reject\<close> change a pending promise only.\<close>

definition settle :: "'a promise \<Rightarrow> 'a promise \<Rightarrow> 'a promise" where
  "settle p outcome = (if p = Pending then outcome else p)"

definition settle_at :: "nat \<Rightarrow> unit promise \<Rightarrow> unit promise list \<Rightarrow> unit promise list" where
  "settle_at k outcome ps = ps[k := settle (ps ! k) outcome]"

text \<open>
  The executor of \<open>init()\<close>, run to its end when \<open>init()\<close> is called. The
  \<open>reject\<close> of the first test is not followed by a \<open>return\<close>, so the executor goes
  on with the promise already rejected.
\<close>

definition init :: "world \<Rightarrow> world" where
  "init w =
     (let k = length (promises w);
          p0 = (if isInitialized (client w) then Rejected AlreadyConnected else Pending)
      in case parent_pulsar w of
           Some e \<Rightarrow>
             w\<lparr>client := \<lparr>bridge = Some (ebridge e), pulsar = Some e, isInitialized = True\<rparr>,
               promises := promises w @ [settle p0 (Fulfilled ())]\<rparr>
         | None \<Rightarrow>
             w\<lparr>listeners := listeners w @ [k],
               timers := timers w @ [(k, clock w + 5000)],
               promises := promises w @ [p0]\<rparr>)"

text \<open>
  The closure \<open>onBridgeReady\<close> of call \<open>k\<close>, run on an event that carries the handle
  \<open>h\<close>. It clears the timer, removes itself and assigns \<open>this.bridge\<close>; then, on a
  handle without \<open>version\<close>, it calls \<open>this.bridge.init()\<close>. The closure runs as an
  event listener, outside the executor of the promise: when that call throws, or the
  handle has no \<open>init\<close>, the closure ends there, with the bridge assigned, the client
  not initialized and the promise not settled. Otherwise it goes on to its last
  statements, \<open>completed\<close>.
\<close>

definition completed :: "nat \<Rightarrow> world \<Rightarrow> world" where
  "completed k w =
     w\<lparr>client := (client w)\<lparr>isInitialized := True\<rparr>,
       promises := settle_at k (Fulfilled ()) (promises w)\<rparr>"

definition onBridgeReady :: "bridge_handle \<Rightarrow> world \<Rightarrow> nat \<Rightarrow> world" where
  "onBridgeReady h w k =
     (let w1 = w\<lparr>timers := filter (\<lambda>(i, due). i \<noteq> k) (timers w),
                  listeners := removeAll k (listeners w),
                  client := (client w)\<lparr>bridge := Some h\<rparr>\<rparr>
      in if version h = JUndefined
         then (case bridge_init h of
                 InitAbsent \<Rightarrow> w1
               | InitThrows \<Rightarrow> w1\<lparr>bridge_inits := Suc (bridge_inits w1)\<rparr>
               | InitReturns \<Rightarrow> completed k (w1\<lparr>bridge_inits := Suc (bridge_inits w1)\<rparr>))
         else completed k w1)"

text \<open>The handles on which \<open>onBridgeReady\<close> runs to its end.\<close>

definition activates :: "bridge_handle \<Rightarrow> bool" where
  "activates h = (version h \<noteq> JUndefined \<or> bridge_init h = InitReturns)"

text \<open>The timer callback of call \<open>k\<close>.\<close>

definition onTimeout :: "world \<Rightarrow> nat \<Rightarrow> world" where
  "onTimeout w k =
     w\<lparr>listeners := removeAll k (listeners w),
       promises := settle_at k (Rejected HandshakeTimeout) (promises w)\<rparr>"

text \<open>
  What happens to the world: \<open>init()\<close> is called; the document dispatches the ready
  event with a handle, which runs the listeners registered at that moment in the order
  of their registration (a listener that throws does not stop the dispatch); time passes, and every timer that becomes due is taken out of
  the queue and run, in the order in which the timers were armed.
\<close>

datatype event = CallInit | BridgeReady bridge_handle | Elapse nat

definition dispatch :: "bridge_handle \<Rightarrow> world \<Rightarrow> world" where
  "dispatch h w = foldl (onBridgeReady h) w (listeners w)"

definition elapse :: "nat \<Rightarrow> world \<Rightarrow> world" where
  "elapse d w =
     (let now = clock w + d
      in foldl onTimeout
           (w\<lparr>clock := now, timers := filter (\<lambda>(i, due). now < due) (timers w)\<rparr>)
           (map fst (filter (\<lambda>(i, due). due \<le> now) (timers w))))"

fun step_world :: "world \<Rightarrow> event \<Rightarrow> world" where
  "step_world w CallInit = init w"
| "step_world w (BridgeReady h) = dispatch h w"
| "step_world w (Elapse d) = elapse d w"

definition run :: "world \<Rightarrow> event list \<Rightarrow> world" where
  "run w es = foldl step_world w es"

text \<open>Whether some \<open>init()\<close> call has resolved.\<close>

definition connected :: "world \<Rightarrow> bool" where
  "connected w = (Fulfilled () \<in> set (promises w))"

text \<open>The events that deliver no handle, or a handle on which \<open>onBridgeReady\<close> runs to its end.\<close>

fun delivers_working :: "event \<Rightarrow> bool" where
  "delivers_working (BridgeReady h) = activates h"
| "delivers_working e = True"

text \<open>The calls named by the listeners and the timers are calls that were made.\<close>

definition calls_known :: "world \<Rightarrow> bool" where
  "calls_known w =
     (list_all (\<lambda>k. k < length (promises w)) (listeners w) \<and>
      list_all (\<lambda>(k, due). k < length (promises w)) (timers w))"

text \<open>
  The invariant of the handshake: the listeners name calls that were made, and as long as
  no call has resolved the client has no bridge, is not initialized, and every listener
  belongs to a call whose promise is pending.
\<close>

definition handshake_inv :: "world \<Rightarrow> bool" where
  "handshake_inv w =
     (list_all (\<lambda>k. k < length (promises w)) (listeners w) \<and>
      (connected w \<or>
       (bridge (client w) = None \<and> \<not> isInitialized (client w) \<and>
        list_all (\<lambda>k. promises w ! k = Pending) (listeners w))))"

text \<open>
  The two states of one native handshake, call \<open>k\<close>. Armed: the promise is pending, the
  listener is registered and the timer is in the queue, due at \<open>due\<close> and nowhere else.
  Gone: the promise is settled as \<open>p\<close>, and neither listener nor timer is left.
  Orphaned: the promise is pending, and neither listener nor timer is left to settle it.
\<close>

definition armed :: "nat \<Rightarrow> nat \<Rightarrow> world \<Rightarrow> bool" where
  "armed k due w =
     (k < length (promises w) \<and> promises w ! k = Pending \<and> k \<in> set (listeners w) \<and>
      (k, due) \<in> set (timers w) \<and> (\<forall>d. (k, d) \<in> set (timers w) \<longrightarrow> d = due) \<and>
      clock w < due)"

definition gone :: "nat \<Rightarrow> unit promise \<Rightarrow> world \<Rightarrow> bool" where
  "gone k p w =
     (k < length (promises w) \<and> promises w ! k = p \<and> p \<noteq> Pending \<and>
      k \<notin> set (listeners w) \<and> k \<notin> fst ` set (timers w))"

definition orphaned :: "nat \<Rightarrow> world \<Rightarrow> bool" where
  "orphaned k w =
     (k < length (promises w) \<and> promises w ! k = Pending \<and>
      k \<notin> set (listeners w) \<and> k \<notin> fst ` set (timers w))"

section \<open>Example hosts\<close>

text \<open>
  Concrete hosts and a concrete decoder on which the theorems below are run. The decoder
  knows the three serialized texts the example hosts send and fails on every other string.
\<close>

definition owner_schema_text :: string where
  \<open>owner_schema_text =
     ''{"fields":{"OwnerId":{"name":"OwnerId","relationshipName":"Owner","referenceTo":["User"]}}}''\<close>

definition owner_schema :: json where
  "owner_schema =
     JObj [(''fields'', JObj [(''OwnerId'',
       JObj [(''name'', JStr ''OwnerId''), (''relationshipName'', JStr ''Owner''),
             (''referenceTo'', JArr [JStr ''User''])])])]"

definition who_schema_text :: string where
  \<open>who_schema_text =
     ''{"fields":{"WhoId":{"name":"WhoId","relationshipName":"Who","referenceTo":["Contact","Lead"]}}}''\<close>

definition who_schema :: json where
  "who_schema =
     JObj [(''fields'', JObj [(''WhoId'',
       JObj [(''name'', JStr ''WhoId''), (''relationshipName'', JStr ''Who''),
             (''referenceTo'', JArr [JStr ''Contact'', JStr ''Lead''])])])]"

definition sections_text :: string where
  \<open>sections_text = ''[{"heading":"Information"}]''\<close>

definition sections_value :: json where
  "sections_value = JArr [JObj [(''heading'', JStr ''Information'')]]"

definition demo_parse :: parser where
  "demo_parse =
     map_of [(owner_schema_text, owner_schema), (who_schema_text, who_schema),
             (sections_text, sections_value)]"

text \<open>A host that answers three request types: with an error, with an error without data, with data.\<close>

definition boom_bridge :: bridge_handle where
  "boom_bridge =
     \<lparr>host_send = (\<lambda>lg rq.
        if opt_get rq ''type'' = JStr ''read''
        then Some \<lparr>etype = JStr ''error'', edata = JStr ''boom''\<rparr>
        else if opt_get rq ''type'' = JStr ''update''
        then Some \<lparr>etype = JStr ''error'', edata = JUndefined\<rparr>
        else Some \<lparr>etype = JStr ''response'', edata = JNum 7\<rparr>),
      version = JNum 13, bridge_init = InitReturns\<rparr>"

definition boom_client :: Pulsar where
  "boom_client = \<lparr>bridge = Some boom_bridge, pulsar = None, isInitialized = True\<rparr>"

text \<open>A host on a release that answers every request with an already structured object.\<close>

definition structured_bridge :: bridge_handle where
  "structured_bridge =
     \<lparr>host_send = (\<lambda>lg rq. Some \<lparr>etype = JStr ''response'',
                                   edata = JObj [(''fields'', JArr [])]\<rparr>),
      version = JNum 13, bridge_init = InitReturns\<rparr>"

definition structured_client :: Pulsar where
  "structured_client = \<lparr>bridge = Some structured_bridge, pulsar = None, isInitialized = True\<rparr>"

text \<open>A host with the schema of \<open>Contact\<close> and one \<open>User\<close> record.\<close>

definition owner_bridge :: bridge_handle where
  "owner_bridge =
     \<lparr>host_send = (\<lambda>lg rq.
        if opt_get rq ''type'' = JStr ''getSObjectSchema''
        then Some \<lparr>etype = JStr ''response'', edata = JStr owner_schema_text\<rparr>
        else if opt_get rq ''type'' = JStr ''read''
        then Some \<lparr>etype = JStr ''readResponse'',
                   edata = JArr [JObj [(''Id'', JStr ''005X''), (''Name'', JStr ''Carol'')]]\<rparr>
        else None),
      version = JNum 13, bridge_init = InitReturns\<rparr>"

definition owner_client :: Pulsar where
  "owner_client = \<lparr>bridge = Some owner_bridge, pulsar = None, isInitialized = True\<rparr>"

text \<open>A host whose schema service fails.\<close>

definition failing_schema_bridge :: bridge_handle where
  "failing_schema_bridge =
     \<lparr>host_send = (\<lambda>lg rq.
        if opt_get rq ''type'' = JStr ''getSObjectSchema''
        then Some \<lparr>etype = JStr ''error'', edata = JStr ''Schema unavailable''\<rparr>
        else Some \<lparr>etype = JStr ''response'', edata = JArr []\<rparr>),
      version = JNum 13, bridge_init = InitReturns\<rparr>"

definition failing_schema_client :: Pulsar where
  "failing_schema_client =
     \<lparr>bridge = Some failing_schema_bridge, pulsar = None, isInitialized = True\<rparr>"

text \<open>
  A host with the schema of \<open>Task\<close>, whose \<open>Who\<close> relationship points to
  \<open>Contact\<close> or \<open>Lead\<close>, and with records stored under \<open>Contact\<close> and
  under a type the schema does not declare.
\<close>

definition who_bridge :: bridge_handle where
  "who_bridge =
     \<lparr>host_send = (\<lambda>lg rq.
        if opt_get rq ''type'' = JStr ''getSObjectSchema''
        then Some \<lparr>etype = JStr ''response'', edata = JStr who_schema_text\<rparr>
        else if opt_get rq ''type'' = JStr ''read''
        then Some \<lparr>etype = JStr ''readResponse'',
                   edata = (if opt_get rq ''object'' = JStr ''Contact''
                            then JArr [JObj [(''Id'', JStr ''003XYZ''),
                                             (''Name'', JStr ''Polymorphic Contact'')]]
                            else if opt_get rq ''object'' = JStr ''UnknownType''
                            then JArr [JObj [(''Id'', JStr ''999XYZ''), (''Name'', JStr ''Ghost'')]]
                            else JArr [])\<rparr>
        else None),
      version = JNum 13, bridge_init = InitReturns\<rparr>"

definition who_client :: Pulsar where
  "who_client = \<lparr>bridge = Some who_bridge, pulsar = None, isInitialized = True\<rparr>"

text \<open>Two handles of an old host release: they have no \<open>version\<close>, and their \<open>init()\<close> returns.\<close>

definition legacy_bridge :: bridge_handle where
  "legacy_bridge =
     \<lparr>host_send = (\<lambda>lg rq. None), version = JUndefined, bridge_init = InitReturns\<rparr>"

definition second_bridge :: bridge_handle where
  "second_bridge =
     \<lparr>host_send = (\<lambda>lg rq. Some \<lparr>etype = JStr ''response'', edata = JNull\<rparr>),
      version = JUndefined, bridge_init = InitReturns\<rparr>"

text \<open>A handle without \<open>version\<close> whose \<open>init()\<close> throws, on a host that answers requests.\<close>

definition broken_bridge :: bridge_handle where
  "broken_bridge =
     \<lparr>host_send = (\<lambda>lg rq. Some \<lparr>etype = JStr ''response'', edata = JNum 7\<rparr>),
      version = JUndefined, bridge_init = InitThrows\<rparr>"

section \<open>The transport channel\<close>

text \<open>
  C6. Whenever the bridge calls back, \<open>_send\<close> looks at the envelope only: an envelope
  of type \<open>error\<close> rejects with the envelope's data as the message, or with the fixed
  message \<open>Unknown Pulsar JSAPI error\<close> when the data is absent or empty (falsy, as
  the code tests it with \<open>||\<close>); any other envelope fulfils with the envelope's data.
\<close>

theorem send_discriminates_envelope:
  assumes "bridge this = Some b" and "host_send b lg request = Some response"
  shows "pulsar_send this request lg =
     (if etype response = JStr ''error''
      then (Rejected (Error (if truthy (edata response) then edata response
                             else JStr ''Unknown Pulsar JSAPI error'')), lg @ [request])
      else (Fulfilled (edata response), lg @ [request]))"
  using assms by (simp add: pulsar_send_def js_or_def generic_message_def)

theorem send_discriminates_envelope_witness:
  "pulsar_send boom_client (JObj [(''type'', JStr ''read'')]) [] =
     (Rejected (Error (JStr ''boom'')), [JObj [(''type'', JStr ''read'')]]) \<and>
   pulsar_send boom_client (JObj [(''type'', JStr ''update'')]) [] =
     (Rejected (Error (JStr ''Unknown Pulsar JSAPI error'')),
      [JObj [(''type'', JStr ''update'')]]) \<and>
   pulsar_send boom_client (JObj [(''type'', JStr ''mail'')]) [] =
     (Fulfilled (JNum 7), [JObj [(''type'', JStr ''mail'')]])"
  using send_discriminates_envelope
          [of boom_client boom_bridge "[]" "JObj [(''type'', JStr ''read'')]"
              "\<lparr>etype = JStr ''error'', edata = JStr ''boom''\<rparr>"]
        send_discriminates_envelope
          [of boom_client boom_bridge "[]" "JObj [(''type'', JStr ''update'')]"
              "\<lparr>etype = JStr ''error'', edata = JUndefined\<rparr>"]
        send_discriminates_envelope
          [of boom_client boom_bridge "[]" "JObj [(''type'', JStr ''mail'')]"
              "\<lparr>etype = JStr ''response'', edata = JNum 7\<rparr>"]
  by (simp add: boom_client_def boom_bridge_def)

section \<open>Decoding of legacy payloads\<close>

text \<open>Each operation hands the data of a successful envelope to its decoding step.\<close>

lemma operations_decode_the_response:
  assumes "bridge this = Some b"
  shows "host_send b lg (getLayout_request ob rid rn) = Some \<lparr>etype = JStr ''response'', edata = r\<rparr> \<Longrightarrow>
           fst (getLayout jp this ob rid rn lg) = getLayout_result jp r"
    and "host_send b lg (getSObjectSchema_request ob) = Some \<lparr>etype = JStr ''response'', edata = r\<rparr> \<Longrightarrow>
           fst (getSObjectSchema jp this ob lg) = getSObjectSchema_result jp r"
    and "valid_objectName ob \<Longrightarrow>
         host_send b lg (getLayoutSections_request ob rid rn (default_arg lm (JStr ''display''))) =
           Some \<lparr>etype = JStr ''response'', edata = r\<rparr> \<Longrightarrow>
           fst (getLayoutSections jp this ob rid rn lm lg) = getLayoutSections_result jp r"
    and "valid_objectName ob \<Longrightarrow>
         host_send b lg (getLayoutFields_request ob rid rn (default_arg lm (JStr ''display''))) =
           Some \<lparr>etype = JStr ''response'', edata = r\<rparr> \<Longrightarrow>
           fst (getLayoutFields jp this ob rid rn lm lg) = getLayoutFields_result jp r"
  using assms
  by (simp_all add: getLayout_def getSObjectSchema_def getLayoutSections_def getLayoutFields_def
        pulsar_send_def Let_def)

text \<open>
  C3, as the code has it. In \<open>getLayout\<close>, \<open>getLayoutSections\<close> and
  \<open>getLayoutFields\<close> a response that already has the expected shape (a non-null object
  or an array for \<open>getLayout\<close>, an array for the other two) is returned unchanged, and
  a string that decodes to a value of that shape gives the same result as the value
  itself. In all four operations a string that decodes gives the decoded value and a
  string that does not decode fails with the operation's parse error.
  \<open>getSObjectSchema\<close> accepts the string form only: every response that is not a
  string, also an object, fails with \<open>Unexpected return type\<close>.
\<close>

theorem normalizer_shapes:
  "(typeof r = ''object'' \<and> r \<noteq> JNull \<longrightarrow> getLayout_result jp r = Fulfilled r) \<and>
   (isArray r \<longrightarrow> getLayoutSections_result jp r = Fulfilled r \<and>
                  getLayoutFields_result jp r = Fulfilled r) \<and>
   (jp s = Some v \<longrightarrow>
      getLayout_result jp (JStr s) = Fulfilled v \<and>
      getLayoutSections_result jp (JStr s) = Fulfilled v \<and>
      getLayoutFields_result jp (JStr s) = Fulfilled v \<and>
      getSObjectSchema_result jp (JStr s) = Fulfilled v) \<and>
   (jp s = Some v \<and> typeof v = ''object'' \<and> v \<noteq> JNull \<longrightarrow>
      getLayout_result jp (JStr s) = getLayout_result jp v) \<and>
   (jp s = Some v \<and> isArray v \<longrightarrow>
      getLayoutSections_result jp (JStr s) = getLayoutSections_result jp v \<and>
      getLayoutFields_result jp (JStr s) = getLayoutFields_result jp v) \<and>
   (jp u = None \<longrightarrow>
      getLayout_result jp (JStr u) = Rejected (Error (JStr ''Failed to parse layout response'')) \<and>
      getLayoutSections_result jp (JStr u) =
        Rejected (Error (JStr ''Failed to parse layout sections response'')) \<and>
      getLayoutFields_result jp (JStr u) =
        Rejected (Error (JStr ''Failed to parse layout fields response'')) \<and>
      getSObjectSchema_result jp (JStr u) =
        Rejected (Error (JStr ''Failed to parse schema response''))) \<and>
   (typeof r \<noteq> ''string'' \<longrightarrow>
      getSObjectSchema_result jp r =
        Rejected (Error (JStr (''Unexpected return type. Expected JSON string but received '' @
                               typeof r @ ''.''))))"
  by (cases r; cases v)
     (simp_all add: getLayout_result_def getLayoutSections_result_def
        getLayoutFields_result_def getSObjectSchema_result_def)

theorem normalizer_shapes_witness:
  "getLayout_result demo_parse sections_value = Fulfilled sections_value \<and>
   getLayoutSections_result demo_parse sections_value = Fulfilled sections_value \<and>
   getLayoutFields_result demo_parse sections_value = Fulfilled sections_value \<and>
   getLayout_result demo_parse (JStr sections_text) = getLayout_result demo_parse sections_value \<and>
   getLayoutSections_result demo_parse (JStr sections_text) =
     getLayoutSections_result demo_parse sections_value \<and>
   getLayoutFields_result demo_parse (JStr sections_text) =
     getLayoutFields_result demo_parse sections_value \<and>
   getSObjectSchema_result demo_parse (JStr sections_text) = Fulfilled sections_value \<and>
   getLayout_result demo_parse (JStr ''invalid-json'') =
     Rejected (Error (JStr ''Failed to parse layout response'')) \<and>
   getSObjectSchema_result demo_parse (JStr ''invalid-json'') =
     Rejected (Error (JStr ''Failed to parse schema response'')) \<and>
   getSObjectSchema_result demo_parse sections_value =
     Rejected (Error (JStr ''Unexpected return type. Expected JSON string but received object.''))"
proof -
  have a: "typeof sections_value = ''object'' \<and> sections_value \<noteq> JNull \<and> isArray sections_value \<and>
           typeof sections_value \<noteq> ''string''"
    by (simp add: sections_value_def)
  have b: "demo_parse sections_text = Some sections_value"
    by (simp add: demo_parse_def sections_text_def owner_schema_text_def who_schema_text_def)
  have c: "demo_parse ''invalid-json'' = None"
    by (simp add: demo_parse_def sections_text_def owner_schema_text_def who_schema_text_def)
  show ?thesis
    using normalizer_shapes [of sections_value demo_parse sections_text sections_value
             "''invalid-json''"]
      a b c
    by simp
qed

theorem schema_rejects_structured_response_counterexample:
  "getSObjectSchema demo_parse structured_client (JStr ''Lead'') [] =
     (Rejected (Error (JStr ''Unexpected return type. Expected JSON string but received object.'')),
      [getSObjectSchema_request (JStr ''Lead'')]) \<and>
   fst (getSObjectSchema demo_parse structured_client (JStr ''Lead'') []) \<noteq>
     Fulfilled (JObj [(''fields'', JArr [])])"
  by (simp add: getSObjectSchema_def getSObjectSchema_result_def pulsar_send_def
        structured_client_def structured_bridge_def)

section \<open>The relationship path resolver: the requests it sends\<close>


lemma pulsar_send_log:
  "pulsar_send this rq lg = (pr, lg') \<Longrightarrow>
     (bridge this = None \<and> pr = Rejected NotConnected \<and> lg' = lg) \<or>
     (bridge this \<noteq> None \<and> lg' = lg @ [rq])"
  by (auto simp: pulsar_send_def split: option.splits if_splits)

lemma getSObjectSchema_log:
  "getSObjectSchema jp this t lg = (pr, lg') \<Longrightarrow>
     (bridge this = None \<and> pr = Rejected NotConnected \<and> lg' = lg) \<or>
     (bridge this \<noteq> None \<and> lg' = lg @ [getSObjectSchema_request t])"
  by (auto simp: getSObjectSchema_def split: prod.splits promise.splits dest: pulsar_send_log)

lemma read_log:
  "read this t f lg = (pr, lg') \<Longrightarrow>
     (bridge this = None \<and> pr = Rejected NotConnected \<and> lg' = lg) \<or>
     (bridge this \<noteq> None \<and>
      lg' = lg @ [JObj [(''type'', JStr ''read''), (''object'', t), (''data'', f)]])"
  unfolding read_def by (rule pulsar_send_log)

lemma loop_body_log:
  assumes "loop_body jp this field is_last r t lg = (st, lg')"
  shows "(lg' = lg \<and> st = Throw NotConnected) \<or>
         (lg' = lg @ [getSObjectSchema_request t] \<and> (\<forall>r' t'. st \<noteq> Continue r' t')) \<or>
         (\<exists>t' f. lg' = lg @ [getSObjectSchema_request t,
                              JObj [(''type'', JStr ''read''), (''object'', t'), (''data'', f)]] \<and>
                 \<not> is_last \<and> (\<forall>r'' t''. st = Continue r'' t'' \<longrightarrow> t'' = t'))"
proof (cases "getSObjectSchema jp this t lg")
  case (Pair pr lg1)
  note sch = getSObjectSchema_log [OF Pair]
  show ?thesis
  proof (cases pr)
    case Pending
    with Pair assms sch show ?thesis by (auto simp: loop_body_def)
  next
    case (Rejected e)
    with Pair assms sch show ?thesis by (auto simp: loop_body_def)
  next
    case (Fulfilled schema)
    with sch have lg1: "lg1 = lg @ [getSObjectSchema_request t]" and br: "bridge this \<noteq> None" by auto
    show ?thesis
    proof (cases "\<exists>t' f pr2 lg2. read this t' f lg1 = (pr2, lg2) \<and> lg' = lg2 \<and> \<not> is_last \<and>
                     (\<forall>r'' t''. st = Continue r'' t'' \<longrightarrow> t'' = t')")
      case True
      then obtain t' f pr2 lg2 where rd: "read this t' f lg1 = (pr2, lg2)" and e: "lg' = lg2"
        and rest: "\<not> is_last" "\<forall>r'' t''. st = Continue r'' t'' \<longrightarrow> t'' = t'" by blast
      from read_log [OF rd] br have "lg2 = lg1 @ [JObj [(''type'', JStr ''read''), (''object'', t'), (''data'', f)]]"
        by auto
      with lg1 e rest show ?thesis by auto
    next
      case False
      with Pair Fulfilled assms lg1 show ?thesis
        by (auto simp: loop_body_def Let_def split: sum.splits if_splits prod.splits promise.splits)
    qed
  qed
qed

lemma walk_loop_state:
  "loop_state jp this parts r t lg n = Some (parts', r', t', lg') \<Longrightarrow>
     walk jp this parts r t lg = walk jp this parts' r' t' lg'"
proof (induction n arbitrary: parts r t lg)
  case 0
  then show ?case by simp
next
  case (Suc n)
  then show ?case
    by (cases parts) (auto split: prod.splits step.splits)
qed



lemma split_acc_no_dot:
  "CHR ''.'' \<notin> set s \<Longrightarrow> split_acc acc (s @ CHR ''.'' # rest) = (rev acc @ s) # split_acc [] rest"
  by (induction s arbitrary: acc) auto

lemma split_acc_last:
  "CHR ''.'' \<notin> set s \<Longrightarrow> split_acc acc s = [rev acc @ s]"
  by (induction s arbitrary: acc) auto

lemma loop_body_last:
  "getSObjectSchema jp this t lg = (Fulfilled schema, lg') \<Longrightarrow>
     loop_body jp this field True r t lg = (Return (coalesce (opt_get r field) JNull), lg')"
  by (simp add: loop_body_def)

lemma walk_last:
  "getSObjectSchema jp this t lg = (Fulfilled schema, lg') \<Longrightarrow>
     walk jp this [field] r t lg = (Fulfilled (coalesce (opt_get r field) JNull), lg')"
  by (simp add: loop_body_last)

lemma walk_schema_rejected:
  "getSObjectSchema jp this t lg = (Rejected e, lg') \<Longrightarrow>
     walk jp this (field # rest) r t lg = (Rejected e, lg')"
  by (simp add: loop_body_def)

text \<open>
  C9, as the code has it. The path is split at every dot, and the first segment is
  dropped when it equals the base type. When no segment is left the result is
  \<open>null\<close> and nothing is sent. At the final segment the schema of the current type
  is fetched first; when that fetch is fulfilled the result is
  \<open>currentRecord?.[segment] ?? null\<close>.
\<close>

theorem resolver_path_and_leaf:
  "(CHR ''.'' \<notin> set a \<longrightarrow> split_dot (a @ CHR ''.'' # b) = a # split_dot b \<and> split_dot a = [a]) \<and>
   strip_root (p # ps) (JStr p) = ps \<and>
   (JStr p \<noteq> sObjectType \<longrightarrow> strip_root (p # ps) sObjectType = p # ps) \<and>
   (strip_root (split_dot s) sObjectType = [] \<longrightarrow>
      resolveSOQLFieldPath jp this rcd (JStr s) sObjectType lg = (Fulfilled JNull, lg)) \<and>
   (loop_state jp this (strip_root (split_dot s) sObjectType) rcd sObjectType lg n =
        Some ([field], r, t, lg1) \<and>
    getSObjectSchema jp this t lg1 = (Fulfilled schema, lg2) \<longrightarrow>
      resolveSOQLFieldPath jp this rcd (JStr s) sObjectType lg =
        (Fulfilled (coalesce (opt_get r field) JNull), lg2))"
proof (intro conjI impI)
  assume a: "loop_state jp this (strip_root (split_dot s) sObjectType) rcd sObjectType lg n =
        Some ([field], r, t, lg1) \<and>
    getSObjectSchema jp this t lg1 = (Fulfilled schema, lg2)"
  then have "walk jp this (strip_root (split_dot s) sObjectType) rcd sObjectType lg =
             walk jp this [field] r t lg1"
    by (auto dest: walk_loop_state)
  with a show "resolveSOQLFieldPath jp this rcd (JStr s) sObjectType lg =
        (Fulfilled (coalesce (opt_get r field) JNull), lg2)"
    by (simp add: resolveSOQLFieldPath_def walk_last del: walk.simps)
qed (simp_all add: split_dot_def split_acc_no_dot split_acc_last strip_root_def
       resolveSOQLFieldPath_def)

theorem resolver_path_and_leaf_witness:
  "resolveSOQLFieldPath demo_parse owner_client (JObj [(''Name'', JStr ''Acme'')])
      (JStr ''Name'') (JStr ''Account'') [] =
     (Fulfilled (JStr ''Acme''), [getSObjectSchema_request (JStr ''Account'')]) \<and>
   resolveSOQLFieldPath demo_parse owner_client (JObj [])
      (JStr ''Name'') (JStr ''Account'') [] =
     (Fulfilled JNull, [getSObjectSchema_request (JStr ''Account'')]) \<and>
   resolveSOQLFieldPath demo_parse owner_client (JObj [(''Name'', JStr ''Acme'')])
      (JStr ''Account'') (JStr ''Account'') [] = (Fulfilled JNull, []) \<and>
   split_dot ''Account.Name'' = [''Account'', ''Name'']"
proof -
  have sch: "getSObjectSchema demo_parse owner_client (JStr ''Account'') [] =
          (Fulfilled owner_schema, [getSObjectSchema_request (JStr ''Account'')])"
    by (simp add: getSObjectSchema_def getSObjectSchema_request_def getSObjectSchema_result_def
          pulsar_send_def owner_client_def owner_bridge_def demo_parse_def)
  have sp: "strip_root (split_dot ''Name'') (JStr ''Account'') = [''Name'']"
    by (simp add: split_dot_def strip_root_def)
  have sp0: "strip_root (split_dot ''Account'') (JStr ''Account'') = []"
    by (simp add: split_dot_def strip_root_def)
  have ls: "\<And>rcd. loop_state demo_parse owner_client (strip_root (split_dot ''Name'') (JStr ''Account''))
          rcd (JStr ''Account'') [] 0 = Some ([''Name''], rcd, JStr ''Account'', [])"
    by (simp add: sp)
  note t = resolver_path_and_leaf
  show ?thesis
    using t [of "''Account''" "''Name''" "''Account''" "[''Name'']" "JStr ''Account''"
               "''Name''" demo_parse owner_client "JObj [(''Name'', JStr ''Acme'')]" "[]" 0
               "''Name''" "JObj [(''Name'', JStr ''Acme'')]" "JStr ''Account''" "[]" owner_schema
               "[getSObjectSchema_request (JStr ''Account'')]"]
          t [of "''Account''" "''Name''" "''Account''" "[''Name'']" "JStr ''Account''"
               "''Name''" demo_parse owner_client "JObj []" "[]" 0
               "''Name''" "JObj []" "JStr ''Account''" "[]" owner_schema
               "[getSObjectSchema_request (JStr ''Account'')]"]
          t [of "''Account''" "''Name''" "''Account''" "[''Name'']" "JStr ''Account''"
               "''Account''" demo_parse owner_client "JObj [(''Name'', JStr ''Acme'')]" "[]" 0
               "''Name''" "JObj []" "JStr ''Account''" "[]" owner_schema
               "[getSObjectSchema_request (JStr ''Account'')]"]
          sch ls sp0
    by (simp add: coalesce_def split_dot_def)
qed

text \<open>
  On a host whose schema service fails, the one-segment path \<open>Name\<close> is rejected
  although the record has the field.
\<close>

theorem final_segment_needs_schema_counterexample:
  "resolveSOQLFieldPath demo_parse failing_schema_client (JObj [(''Name'', JStr ''Acme'')])
      (JStr ''Name'') (JStr ''Account'') [] =
     (Rejected (Error (JStr ''Schema unavailable'')), [getSObjectSchema_request (JStr ''Account'')]) \<and>
   fst (resolveSOQLFieldPath demo_parse failing_schema_client (JObj [(''Name'', JStr ''Acme'')])
      (JStr ''Name'') (JStr ''Account'') []) \<noteq>
     Fulfilled (coalesce (opt_get (JObj [(''Name'', JStr ''Acme'')]) ''Name'') JNull)"
  by (simp add: resolveSOQLFieldPath_def split_dot_def strip_root_def loop_body_def
        getSObjectSchema_def getSObjectSchema_request_def pulsar_send_def
        failing_schema_client_def failing_schema_bridge_def js_or_def coalesce_def)

lemmas eval_resolver =
  resolveSOQLFieldPath_def split_dot_def strip_root_def loop_body_def
  getSObjectSchema_def getSObjectSchema_request_def getSObjectSchema_result_def
  pulsar_send_def demo_parse_def owner_schema_def who_schema_def sections_text_def
  owner_schema_text_def who_schema_text_def
  get_prop_def read_def ref_type_def hint_expanded_def hint_raw_def js_or_def coalesce_def Let_def

text \<open>
  C2. With several entries in \<open>referenceTo\<close>, the type read is the expanded object's
  type hint when it is truthy, else the hint on the raw foreign key when it is truthy,
  else the first entry. The hint is not compared with \<open>referenceTo\<close>: on the host
  above, a record whose hint names \<open>UnknownType\<close> makes the resolver read
  \<open>UnknownType\<close> and resolve to the name stored there, where the expected result
  is \<open>null\<close> with no read.
\<close>

theorem undeclared_hint_is_read:
  "resolveSOQLFieldPath demo_parse who_client
      (JObj [(''WhoId'', JStr ''999XYZ''),
             (''WhoId__r'', JObj [(''attributes'', JObj [(''type'', JStr ''UnknownType'')])])])
      (JStr ''Who.Name'') (JStr ''Task'') [] =
     (Fulfilled (JStr ''Ghost''),
      [getSObjectSchema_request (JStr ''Task''),
       JObj [(''type'', JStr ''read''), (''object'', JStr ''UnknownType''),
             (''data'', JObj [(''Id'', JStr ''999XYZ'')])],
       getSObjectSchema_request (JStr ''UnknownType'')])"
  by (simp add: eval_resolver who_client_def who_bridge_def)

lemma ref_type_polymorphic:
  assumes "opt_get rf ''referenceTo'' = JArr ts" and "length ts \<noteq> 1"
  shows "truthy (hint_expanded rf r) \<Longrightarrow> ref_type rf r = hint_expanded rf r"
    and "\<not> truthy (hint_expanded rf r) \<Longrightarrow> truthy (hint_raw rf r) \<Longrightarrow> ref_type rf r = hint_raw rf r"
    and "\<not> truthy (hint_expanded rf r) \<Longrightarrow> \<not> truthy (hint_raw rf r) \<Longrightarrow>
           ref_type rf r = opt_first (JArr ts)"
  using assms by (simp_all add: ref_type_def js_or_def)

lemma schema_request_recognised [simp]:
  "is_schema_request (getSObjectSchema_request t)"
  "\<not> is_schema_request (JObj [(''type'', JStr ''read''), (''object'', t1), (''data'', f)])"
  by (simp_all add: is_schema_request_def getSObjectSchema_request_def)

lemma take_prefix_length: "take (length lg) lg1 = lg \<Longrightarrow> length lg \<le> length lg1"
proof -
  assume a: "take (length lg) lg1 = lg"
  have "length (take (length lg) lg1) = min (length lg1) (length lg)" by simp
  with a show ?thesis by simp
qed

lemma loop_state_count:
  "loop_state jp this parts r t lg n = Some (parts', r', t', lg') \<Longrightarrow>
     length parts = n + length parts' \<and>
     take (length lg) lg' = lg \<and>
     length (filter is_schema_request (drop (length lg) lg')) = n"
proof (induction n arbitrary: parts r t lg)
  case 0
  then show ?case by simp
next
  case (Suc n)
  then obtain field rest where parts: "parts = field # rest" by (cases parts) auto
  obtain st lg1 where lb: "loop_body jp this field (rest = []) r t lg = (st, lg1)"
    by (cases "loop_body jp this field (rest = []) r t lg")
  with Suc.prems parts obtain r1 t1 where st: "st = Continue r1 t1"
    and ls: "loop_state jp this rest r1 t1 lg1 n = Some (parts', r', t', lg')"
    by (cases st) auto
  from loop_body_log [OF lb] st obtain f where
    lg1: "lg1 = lg @ [getSObjectSchema_request t,
                      JObj [(''type'', JStr ''read''), (''object'', t1), (''data'', f)]]"
    by auto
  from Suc.IH [OF ls] have ih: "length rest = n + length parts'" "take (length lg1) lg' = lg1"
    "length (filter is_schema_request (drop (length lg1) lg')) = n" by auto
  from ih(2) have lg': "lg' = lg1 @ drop (length lg1) lg'"
    by (metis append_take_drop_id)
  have d: "drop (length lg) lg' = [getSObjectSchema_request t,
                      JObj [(''type'', JStr ''read''), (''object'', t1), (''data'', f)]] @
                      drop (length lg1) lg'"
    by (subst lg') (simp add: lg1)
  have t: "take (length lg) lg' = lg"
    by (subst lg') (simp add: lg1)
  from ih parts t show ?case
    by (simp add: d)
qed

text \<open>
  C10. The schema of the current type is fetched at every segment, the final one
  included. When the loop arrives at the final segment of a path of \<open>n\<close> segments
  and the schema fetch there is fulfilled, the call resolves to the leaf value and has
  sent exactly \<open>n\<close> schema requests. When the schema fetch at any segment, also at
  the only segment of a one-segment path, is rejected, the whole call is rejected with
  that error.
\<close>

theorem schema_fetched_for_every_segment:
  "(loop_state jp this (strip_root (split_dot s) sObjectType) rcd sObjectType lg
        (length (strip_root (split_dot s) sObjectType) - 1) = Some ([field], r, t, lg1) \<and>
    getSObjectSchema jp this t lg1 = (Fulfilled schema, lg2) \<longrightarrow>
      resolveSOQLFieldPath jp this rcd (JStr s) sObjectType lg =
        (Fulfilled (coalesce (opt_get r field) JNull), lg2) \<and>
      length (filter is_schema_request (drop (length lg) lg2)) =
        length (strip_root (split_dot s) sObjectType)) \<and>
   (loop_state jp this (strip_root (split_dot s) sObjectType) rcd sObjectType lg n =
        Some (seg # rest, r', t', lg3) \<and>
    getSObjectSchema jp this t' lg3 = (Rejected e, lg4) \<longrightarrow>
      resolveSOQLFieldPath jp this rcd (JStr s) sObjectType lg = (Rejected e, lg4))"
proof (intro conjI impI)
  let ?parts = "strip_root (split_dot s) sObjectType"
  assume a: "loop_state jp this ?parts rcd sObjectType lg (length ?parts - 1) = Some ([field], r, t, lg1) \<and>
    getSObjectSchema jp this t lg1 = (Fulfilled schema, lg2)"
  then have ls: "loop_state jp this ?parts rcd sObjectType lg (length ?parts - 1) = Some ([field], r, t, lg1)"
    and sch: "getSObjectSchema jp this t lg1 = (Fulfilled schema, lg2)" by auto
  from loop_state_count [OF ls] have c: "length ?parts = length ?parts - 1 + 1"
    "take (length lg) lg1 = lg"
    "length (filter is_schema_request (drop (length lg) lg1)) = length ?parts - 1" by auto
  from getSObjectSchema_log [OF sch] have lg2: "lg2 = lg1 @ [getSObjectSchema_request t]" by auto
  from c(2) have lg1: "lg1 = lg @ drop (length lg) lg1" by (metis append_take_drop_id)
  have d: "drop (length lg) lg2 = drop (length lg) lg1 @ [getSObjectSchema_request t]"
    unfolding lg2 using take_prefix_length [OF c(2)] by simp
  have w: "walk jp this ?parts rcd sObjectType lg = walk jp this [field] r t lg1"
    by (rule walk_loop_state [OF ls])
  show "resolveSOQLFieldPath jp this rcd (JStr s) sObjectType lg =
        (Fulfilled (coalesce (opt_get r field) JNull), lg2)"
    using w sch by (simp add: resolveSOQLFieldPath_def walk_last del: walk.simps)
  show "length (filter is_schema_request (drop (length lg) lg2)) = length ?parts"
    using c(1,3) by (simp add: d)
next
  assume a: "loop_state jp this (strip_root (split_dot s) sObjectType) rcd sObjectType lg n =
        Some (seg # rest, r', t', lg3) \<and>
    getSObjectSchema jp this t' lg3 = (Rejected e, lg4)"
  then have "walk jp this (strip_root (split_dot s) sObjectType) rcd sObjectType lg =
             walk jp this (seg # rest) r' t' lg3"
    by (auto dest: walk_loop_state)
  with a show "resolveSOQLFieldPath jp this rcd (JStr s) sObjectType lg = (Rejected e, lg4)"
    by (simp add: resolveSOQLFieldPath_def walk_schema_rejected del: walk.simps)
qed



theorem schema_fetched_for_every_segment_witness:
  "resolveSOQLFieldPath demo_parse owner_client (JObj [(''OwnerId'', JStr ''005X'')])
       (JStr ''Owner.Name'') (JStr ''Contact'') [] =
     (Fulfilled (JStr ''Carol''),
      [getSObjectSchema_request (JStr ''Contact''),
       JObj [(''type'', JStr ''read''), (''object'', JStr ''User''),
             (''data'', JObj [(''Id'', JStr ''005X'')])],
       getSObjectSchema_request (JStr ''User'')]) \<and>
   length (filter is_schema_request
      [getSObjectSchema_request (JStr ''Contact''),
       JObj [(''type'', JStr ''read''), (''object'', JStr ''User''),
             (''data'', JObj [(''Id'', JStr ''005X'')])],
       getSObjectSchema_request (JStr ''User'')]) = length [''Owner'', ''Name''] \<and>
   resolveSOQLFieldPath demo_parse failing_schema_client (JObj [(''Name'', JStr ''Acme'')])
      (JStr ''Name'') (JStr ''Account'') [] =
     (Rejected (Error (JStr ''Schema unavailable'')), [getSObjectSchema_request (JStr ''Account'')])"
proof -
  let ?lg1 = "[getSObjectSchema_request (JStr ''Contact''),
       JObj [(''type'', JStr ''read''), (''object'', JStr ''User''),
             (''data'', JObj [(''Id'', JStr ''005X'')])]]"
  let ?carol = "JObj [(''Id'', JStr ''005X''), (''Name'', JStr ''Carol'')]"
  have sp: "strip_root (split_dot ''Owner.Name'') (JStr ''Contact'') = [''Owner'', ''Name'']"
    by (simp add: split_dot_def strip_root_def)
  have ls: "loop_state demo_parse owner_client (strip_root (split_dot ''Owner.Name'') (JStr ''Contact''))
        (JObj [(''OwnerId'', JStr ''005X'')]) (JStr ''Contact'') []
        (length (strip_root (split_dot ''Owner.Name'') (JStr ''Contact'')) - 1) =
      Some ([''Name''], ?carol, JStr ''User'', ?lg1)"
    unfolding sp by (simp add: eval_resolver owner_client_def owner_bridge_def)
  have sch: "getSObjectSchema demo_parse owner_client (JStr ''User'') ?lg1 =
      (Fulfilled owner_schema, ?lg1 @ [getSObjectSchema_request (JStr ''User'')])"
    by (simp add: eval_resolver owner_client_def owner_bridge_def)
  have sp2: "strip_root (split_dot ''Name'') (JStr ''Account'') = [''Name'']"
    by (simp add: split_dot_def strip_root_def)
  have ls2: "loop_state demo_parse failing_schema_client (strip_root (split_dot ''Name'') (JStr ''Account''))
        (JObj [(''Name'', JStr ''Acme'')]) (JStr ''Account'') [] 0 =
      Some ([''Name''], JObj [(''Name'', JStr ''Acme'')], JStr ''Account'', [])"
    unfolding sp2 by simp
  have sch2: "getSObjectSchema demo_parse failing_schema_client (JStr ''Account'') [] =
      (Rejected (Error (JStr ''Schema unavailable'')), [getSObjectSchema_request (JStr ''Account'')])"
    by (simp add: eval_resolver failing_schema_client_def failing_schema_bridge_def)
  show ?thesis
    using schema_fetched_for_every_segment
            [where jp = demo_parse and this = owner_client and s = "''Owner.Name''"
               and sObjectType = "JStr ''Contact''" and rcd = "JObj [(''OwnerId'', JStr ''005X'')]"
               and lg = "[]" and field = "''Name''" and r = ?carol and t = "JStr ''User''"
               and ?lg1.0 = ?lg1 and schema = owner_schema
               and ?lg2.0 = "?lg1 @ [getSObjectSchema_request (JStr ''User'')]"]
          schema_fetched_for_every_segment
            [where jp = demo_parse and this = failing_schema_client and s = "''Name''"
               and sObjectType = "JStr ''Account''" and rcd = "JObj [(''Name'', JStr ''Acme'')]"
               and lg = "[]" and n = 0 and seg = "''Name''" and rest = "[]"
               and r' = "JObj [(''Name'', JStr ''Acme'')]" and t' = "JStr ''Account''"
               and ?lg3.0 = "[]" and e = "Error (JStr ''Schema unavailable'')"
               and ?lg4.0 = "[getSObjectSchema_request (JStr ''Account'')]"]
          ls sch ls2 sch2 sp
    by (simp add: coalesce_def)
qed

text \<open>
  C5. Let the loop arrive at a segment that is not the final one, and let the schema
  fetch there be fulfilled with a schema whose fields can be searched. If no field has
  the segment as its \<open>relationshipName\<close>, or the foreign key on the current record
  is falsy, or the read is fulfilled without a first record, then the whole call
  resolves to \<open>null\<close>: it is not rejected.
\<close>

theorem not_found_resolves_null:
  assumes "loop_state jp this (strip_root (split_dot s) sObjectType) rcd sObjectType lg n =
             Some (field # rest, r, t, lg1)"
      and "rest \<noteq> []"
      and "getSObjectSchema jp this t lg1 = (Fulfilled schema, lg2)"
      and "get_prop schema ''fields'' = Inr flds"
      and "object_values flds = Inr vs"
      and "find_relationship vs field = Inr rf"
      and "\<not> truthy rf \<or>
           \<not> truthy (opt_get r (to_string (opt_get rf ''name''))) \<or>
           (\<exists>results lg3.
              read this (ref_type rf r)
                (JObj [(''Id'', opt_get r (to_string (opt_get rf ''name'')))]) lg2 =
                (Fulfilled results, lg3) \<and>
              \<not> truthy (opt_first results))"
  shows "fst (resolveSOQLFieldPath jp this rcd (JStr s) sObjectType lg) = Fulfilled JNull"
proof -
  have w: "walk jp this (strip_root (split_dot s) sObjectType) rcd sObjectType lg =
           walk jp this (field # rest) r t lg1"
    by (rule walk_loop_state [OF assms(1)])
  have "fst (loop_body jp this field False r t lg1) = Return JNull"
    using assms(3-7) by (auto simp: loop_body_def Let_def)
  with assms(2) have "fst (walk jp this (field # rest) r t lg1) = Fulfilled JNull"
    by (cases "loop_body jp this field False r t lg1") auto
  with w show ?thesis by (simp add: resolveSOQLFieldPath_def)
qed



theorem not_found_resolves_null_witness:
  "fst (resolveSOQLFieldPath demo_parse owner_client (JObj [(''OwnerId'', JStr ''005X'')])
          (JStr ''Manager.Name'') (JStr ''Contact'') []) = Fulfilled JNull \<and>
   fst (resolveSOQLFieldPath demo_parse owner_client (JObj [])
          (JStr ''Owner.Name'') (JStr ''Contact'') []) = Fulfilled JNull \<and>
   fst (resolveSOQLFieldPath demo_parse who_client
          (JObj [(''WhoId'', JStr ''00Q1''),
                 (''WhoId__r'', JObj [(''attributes'', JObj [(''type'', JStr ''Lead'')])])])
          (JStr ''Who.Name'') (JStr ''Task'') []) = Fulfilled JNull"
proof -
  let ?owner_field = "JObj [(''name'', JStr ''OwnerId''), (''relationshipName'', JStr ''Owner''),
             (''referenceTo'', JArr [JStr ''User''])]"
  let ?who_field = "JObj [(''name'', JStr ''WhoId''), (''relationshipName'', JStr ''Who''),
             (''referenceTo'', JArr [JStr ''Contact'', JStr ''Lead''])]"
  let ?lead = "JObj [(''WhoId'', JStr ''00Q1''),
                 (''WhoId__r'', JObj [(''attributes'', JObj [(''type'', JStr ''Lead'')])])]"
  have sch: "getSObjectSchema demo_parse owner_client (JStr ''Contact'') [] =
      (Fulfilled owner_schema, [getSObjectSchema_request (JStr ''Contact'')])"
    by (simp add: eval_resolver owner_client_def owner_bridge_def)
  have sch_who: "getSObjectSchema demo_parse who_client (JStr ''Task'') [] =
      (Fulfilled who_schema, [getSObjectSchema_request (JStr ''Task'')])"
    by (simp add: eval_resolver who_client_def who_bridge_def)
  have flds: "get_prop owner_schema ''fields'' = Inr (JObj [(''OwnerId'', ?owner_field)])"
    "object_values (JObj [(''OwnerId'', ?owner_field)]) = Inr [?owner_field]"
    "get_prop who_schema ''fields'' = Inr (JObj [(''WhoId'', ?who_field)])"
    "object_values (JObj [(''WhoId'', ?who_field)]) = Inr [?who_field]"
    by (simp_all add: get_prop_def owner_schema_def who_schema_def)
  have fnd: "find_relationship [?owner_field] ''Manager'' = Inr JUndefined"
    "find_relationship [?owner_field] ''Owner'' = Inr ?owner_field"
    "find_relationship [?who_field] ''Who'' = Inr ?who_field"
    by (simp_all add: get_prop_def)
  have rd: "read who_client (ref_type ?who_field ?lead)
              (JObj [(''Id'', JStr ''00Q1'')])
              [getSObjectSchema_request (JStr ''Task'')] =
            (Fulfilled (JArr []),
             [getSObjectSchema_request (JStr ''Task''),
              JObj [(''type'', JStr ''read''), (''object'', JStr ''Lead''),
                    (''data'', JObj [(''Id'', JStr ''00Q1'')])]])"
    by (simp add: eval_resolver who_client_def who_bridge_def)
  have c1: "fst (resolveSOQLFieldPath demo_parse owner_client (JObj [(''OwnerId'', JStr ''005X'')])
          (JStr ''Manager.Name'') (JStr ''Contact'') []) = Fulfilled JNull"
    by (rule not_found_resolves_null
          [where n = 0 and field = "''Manager''" and rest = "[''Name'']" and rf = JUndefined
             and r = "JObj [(''OwnerId'', JStr ''005X'')]",
           OF _ _ sch flds(1) flds(2) fnd(1)])
       (simp_all add: split_dot_def strip_root_def)
  have c2: "fst (resolveSOQLFieldPath demo_parse owner_client (JObj [])
          (JStr ''Owner.Name'') (JStr ''Contact'') []) = Fulfilled JNull"
    by (rule not_found_resolves_null
          [where n = 0 and field = "''Owner''" and rest = "[''Name'']" and rf = ?owner_field
             and r = "JObj []",
           OF _ _ sch flds(1) flds(2) fnd(2)])
       (simp_all add: split_dot_def strip_root_def)
  have c3: "fst (resolveSOQLFieldPath demo_parse who_client ?lead
          (JStr ''Who.Name'') (JStr ''Task'') []) = Fulfilled JNull"
    by (rule not_found_resolves_null
          [where n = 0 and field = "''Who''" and rest = "[''Name'']" and rf = ?who_field
             and r = ?lead,
           OF _ _ sch_who flds(3) flds(4) fnd(3)])
       (simp_all add: split_dot_def strip_root_def rd)
  from c1 c2 c3 show ?thesis by blast
qed

section \<open>The connection handshake: proofs\<close>

lemma settle_at_length [simp]: "length (settle_at k p ps) = length ps"
  by (simp add: settle_at_def)

lemma settle_at_other [simp]: "j \<noteq> k \<Longrightarrow> settle_at k p ps ! j = ps ! j"
  by (simp add: settle_at_def)

lemma settle_at_same: "k < length ps \<Longrightarrow> settle_at k p ps ! k = settle (ps ! k) p"
  by (simp add: settle_at_def)

lemma settle_at_keeps_fulfilled:
  "Fulfilled () \<in> set ps \<Longrightarrow> Fulfilled () \<in> set (settle_at k p ps)"
proof -
  assume "Fulfilled () \<in> set ps"
  then obtain i where i: "i < length ps" "ps ! i = Fulfilled ()"
    by (auto simp: in_set_conv_nth)
  have "settle_at k p ps ! i = Fulfilled ()"
  proof (cases "i = k")
    case True
    with i show ?thesis by (simp add: settle_at_same settle_def)
  next
    case False
    with i show ?thesis by simp
  qed
  with i(1) show ?thesis by (metis nth_mem settle_at_length)
qed

lemma settle_at_rejected_no_new:
  "Fulfilled () \<in> set (settle_at k (Rejected e) ps) \<Longrightarrow> Fulfilled () \<in> set ps"
proof -
  assume "Fulfilled () \<in> set (settle_at k (Rejected e) ps)"
  then obtain i where i: "i < length ps" "settle_at k (Rejected e) ps ! i = Fulfilled ()"
    by (auto simp: in_set_conv_nth)
  have "ps ! i = Fulfilled ()"
  proof (cases "i = k")
    case True
    with i show ?thesis by (auto simp: settle_at_same settle_def split: if_splits)
  next
    case False
    with i show ?thesis by simp
  qed
  with i(1) show ?thesis by (metis nth_mem)
qed

lemma onBridgeReady_activates:
  "activates h \<Longrightarrow>
     onBridgeReady h w k =
       w\<lparr>timers := filter (\<lambda>(i, due). i \<noteq> k) (timers w),
         listeners := removeAll k (listeners w),
         client := (client w)\<lparr>bridge := Some h, isInitialized := True\<rparr>,
         bridge_inits := (if version h = JUndefined then Suc (bridge_inits w) else bridge_inits w),
         promises := settle_at k (Fulfilled ()) (promises w)\<rparr>"
  by (cases "bridge_init h") (auto simp: onBridgeReady_def completed_def activates_def Let_def)

lemma onBridgeReady_fails:
  "\<not> activates h \<Longrightarrow>
     onBridgeReady h w k =
       w\<lparr>timers := filter (\<lambda>(i, due). i \<noteq> k) (timers w),
         listeners := removeAll k (listeners w),
         client := (client w)\<lparr>bridge := Some h\<rparr>,
         bridge_inits := (if bridge_init h = InitThrows then Suc (bridge_inits w)
                          else bridge_inits w)\<rparr>"
  by (cases "bridge_init h") (auto simp: onBridgeReady_def activates_def Let_def)

lemma init_inv: "handshake_inv w \<Longrightarrow> handshake_inv (init w)"
  by (cases "parent_pulsar w")
     (auto simp: handshake_inv_def init_def connected_def Let_def settle_def list_all_iff nth_append)

lemma onBridgeReady_inv:
  assumes "handshake_inv w" and "connected w \<or> k \<in> set (listeners w)" and "activates h"
  shows "handshake_inv (onBridgeReady h w k) \<and> connected (onBridgeReady h w k)"
proof -
  have c: "connected (onBridgeReady h w k)"
  proof (cases "connected w")
    case True
    then show ?thesis
      by (simp add: connected_def onBridgeReady_activates [OF assms(3)] settle_at_keeps_fulfilled)
  next
    case False
    with assms have k: "k < length (promises w)" "promises w ! k = Pending"
      by (auto simp: handshake_inv_def list_all_iff)
    then have "settle_at k (Fulfilled ()) (promises w) ! k = Fulfilled ()"
      by (simp add: settle_at_same settle_def)
    with k(1) have "Fulfilled () \<in> set (settle_at k (Fulfilled ()) (promises w))"
      by (metis nth_mem settle_at_length)
    then show ?thesis by (simp add: connected_def onBridgeReady_activates [OF assms(3)])
  qed
  from assms(1) have "list_all (\<lambda>j. j < length (promises (onBridgeReady h w k)))
                        (listeners (onBridgeReady h w k))"
    by (auto simp: handshake_inv_def onBridgeReady_activates [OF assms(3)] list_all_iff)
  with c show ?thesis by (simp add: handshake_inv_def)
qed

lemma foldl_onBridgeReady_inv:
  "activates h \<Longrightarrow> handshake_inv w \<Longrightarrow> connected w \<Longrightarrow>
     handshake_inv (foldl (onBridgeReady h) w ks) \<and> connected (foldl (onBridgeReady h) w ks)"
  by (induction ks arbitrary: w) (auto dest: onBridgeReady_inv)

lemma dispatch_inv:
  assumes "activates h" and "handshake_inv w"
  shows "handshake_inv (dispatch h w)"
proof (cases "listeners w")
  case Nil
  with assms(2) show ?thesis by (simp add: dispatch_def)
next
  case (Cons k ks)
  with assms have "handshake_inv (onBridgeReady h w k) \<and> connected (onBridgeReady h w k)"
    by (intro onBridgeReady_inv) auto
  then show ?thesis
    using Cons assms(1) by (simp add: dispatch_def foldl_onBridgeReady_inv)
qed

lemma onTimeout_inv: "handshake_inv w \<Longrightarrow> handshake_inv (onTimeout w k)"
proof -
  assume i: "handshake_inv w"
  show ?thesis
  proof (cases "connected w")
    case True
    with i show ?thesis
      by (auto simp: handshake_inv_def onTimeout_def connected_def list_all_iff
            settle_at_keeps_fulfilled)
  next
    case False
    with i show ?thesis
      by (auto simp: handshake_inv_def onTimeout_def connected_def list_all_iff)
  qed
qed

lemma foldl_onTimeout_inv: "handshake_inv w \<Longrightarrow> handshake_inv (foldl onTimeout w ks)"
  by (induction ks arbitrary: w) (auto intro: onTimeout_inv)

lemma elapse_inv: "handshake_inv w \<Longrightarrow> handshake_inv (elapse d w)"
proof -
  assume "handshake_inv w"
  then have "handshake_inv (w\<lparr>clock := clock w + d,
               timers := filter (\<lambda>(i, due). clock w + d < due) (timers w)\<rparr>)"
    by (simp add: handshake_inv_def connected_def)
  then show ?thesis
    by (simp add: elapse_def Let_def foldl_onTimeout_inv)
qed

lemma step_world_inv:
  "delivers_working e \<Longrightarrow> handshake_inv w \<Longrightarrow> handshake_inv (step_world w e)"
  by (cases e) (simp_all add: init_inv dispatch_inv elapse_inv)

lemma run_inv:
  "list_all delivers_working es \<Longrightarrow> handshake_inv w \<Longrightarrow> handshake_inv (run w es)"
  unfolding run_def by (induction es arbitrary: w) (simp_all add: step_world_inv)

lemma new_world_inv: "handshake_inv (new_world pp)"
  by (simp add: handshake_inv_def new_world_def constructor_def)

text \<open>
  C7, as the code has it. \<open>_send\<close> tests \<open>this.bridge\<close>, which \<open>onBridgeReady\<close>
  assigns before it calls \<open>init()\<close> on the handle. In every world reached from a fresh
  client by calls of \<open>init()\<close>, ready events and the passing of time, where each
  delivered handle has a \<open>version\<close> or an \<open>init()\<close> that returns: as long as no
  \<open>init()\<close> call has resolved, \<open>_send\<close> rejects every request with the
  not-initialized error, and the list of requests the host has received is unchanged:
  the bridge's send primitive is not invoked.
\<close>

theorem send_before_handshake_is_rejected:
  assumes "list_all delivers_working es" and "\<not> connected (run (new_world pp) es)"
  shows "pulsar_send (client (run (new_world pp) es)) request lg = (Rejected NotConnected, lg)"
proof -
  have "handshake_inv (run (new_world pp) es)"
    by (rule run_inv [OF assms(1) new_world_inv])
  with assms(2) have "bridge (client (run (new_world pp) es)) = None"
    by (simp add: handshake_inv_def)
  then show ?thesis by (simp add: pulsar_send_def)
qed

lemma settle_settled: "p \<noteq> Pending \<Longrightarrow> settle p q = p"
  by (simp add: settle_def)

lemma settle_at_settled:
  "k < length ps \<Longrightarrow> ps ! k \<noteq> Pending \<Longrightarrow> settle_at j q ps ! k = ps ! k"
  by (cases "j = k") (simp_all add: settle_at_same settle_settled)

lemma onBridgeReady_gone: "gone k p w \<Longrightarrow> gone k p (onBridgeReady h w j)"
  by (cases "activates h")
     (auto simp: gone_def onBridgeReady_activates onBridgeReady_fails settle_at_settled)

lemma onTimeout_gone: "gone k p w \<Longrightarrow> gone k p (onTimeout w j)"
  by (auto simp: gone_def onTimeout_def settle_at_settled)

lemma foldl_onBridgeReady_gone: "gone k p w \<Longrightarrow> gone k p (foldl (onBridgeReady h) w js)"
  by (induction js arbitrary: w) (simp_all add: onBridgeReady_gone)

lemma foldl_onTimeout_gone: "gone k p w \<Longrightarrow> gone k p (foldl onTimeout w js)"
  by (induction js arbitrary: w) (simp_all add: onTimeout_gone)

lemma init_gone: "gone k p w \<Longrightarrow> gone k p (init w)"
  by (cases "parent_pulsar w") (auto simp: gone_def init_def Let_def nth_append)

lemma elapse_gone: "gone k p w \<Longrightarrow> gone k p (elapse d w)"
proof -
  assume "gone k p w"
  then have "gone k p (w\<lparr>clock := clock w + d,
               timers := filter (\<lambda>(i, due). clock w + d < due) (timers w)\<rparr>)"
    by (auto simp: gone_def)
  then show ?thesis by (simp add: elapse_def Let_def foldl_onTimeout_gone)
qed

lemma step_world_gone: "gone k p w \<Longrightarrow> gone k p (step_world w e)"
  by (cases e) (simp_all add: init_gone dispatch_def foldl_onBridgeReady_gone elapse_gone)

lemma run_gone: "gone k p w \<Longrightarrow> gone k p (run w es)"
  unfolding run_def by (induction es arbitrary: w) (simp_all add: step_world_gone)

lemma onBridgeReady_orphaned:
  "j \<noteq> k \<Longrightarrow> orphaned k w \<Longrightarrow> orphaned k (onBridgeReady h w j)"
  by (cases "activates h")
     (auto simp: orphaned_def onBridgeReady_activates onBridgeReady_fails)

lemma foldl_onBridgeReady_orphaned:
  "k \<notin> set js \<Longrightarrow> orphaned k w \<Longrightarrow> orphaned k (foldl (onBridgeReady h) w js)"
  by (induction js arbitrary: w) (auto simp: onBridgeReady_orphaned)

lemma onTimeout_orphaned: "j \<noteq> k \<Longrightarrow> orphaned k w \<Longrightarrow> orphaned k (onTimeout w j)"
  by (auto simp: orphaned_def onTimeout_def)

lemma foldl_onTimeout_orphaned:
  "k \<notin> set js \<Longrightarrow> orphaned k w \<Longrightarrow> orphaned k (foldl onTimeout w js)"
  by (induction js arbitrary: w) (auto simp: onTimeout_orphaned)

lemma init_orphaned: "orphaned k w \<Longrightarrow> orphaned k (init w)"
  by (cases "parent_pulsar w") (auto simp: orphaned_def init_def Let_def nth_append)

lemma dispatch_orphaned: "orphaned k w \<Longrightarrow> orphaned k (dispatch h w)"
  unfolding dispatch_def by (rule foldl_onBridgeReady_orphaned) (simp_all add: orphaned_def)

lemma elapse_orphaned:
  assumes "orphaned k w"
  shows "orphaned k (elapse d w)"
proof -
  let ?now = "clock w + d"
  let ?w0 = "w\<lparr>clock := ?now, timers := filter (\<lambda>(i, t). ?now < t) (timers w)\<rparr>"
  let ?fired = "map fst (filter (\<lambda>(i, t). t \<le> ?now) (timers w))"
  from assms have "k \<notin> set ?fired" by (auto simp: orphaned_def)
  moreover from assms have "orphaned k ?w0" by (auto simp: orphaned_def)
  ultimately have "orphaned k (foldl onTimeout ?w0 ?fired)"
    by (rule foldl_onTimeout_orphaned)
  then show ?thesis by (simp add: elapse_def Let_def)
qed

lemma step_world_orphaned: "orphaned k w \<Longrightarrow> orphaned k (step_world w e)"
  by (cases e) (simp_all add: init_orphaned dispatch_orphaned elapse_orphaned)

lemma run_orphaned: "orphaned k w \<Longrightarrow> orphaned k (run w es)"
  unfolding run_def by (induction es arbitrary: w) (simp_all add: step_world_orphaned)

lemma init_armed:
  assumes "parent_pulsar w = None" and "\<not> isInitialized (client w)" and "calls_known w"
  shows "armed (length (promises w)) (clock w + 5000) (init w)"
  using assms
  by (auto simp: armed_def init_def Let_def calls_known_def list_all_iff)

lemma onTimeout_armed: "j \<noteq> k \<Longrightarrow> armed k due w \<Longrightarrow> armed k due (onTimeout w j)"
  by (auto simp: armed_def onTimeout_def)

lemma foldl_onTimeout_armed:
  "k \<notin> set js \<Longrightarrow> armed k due w \<Longrightarrow> armed k due (foldl onTimeout w js)"
  by (induction js arbitrary: w) (auto simp: onTimeout_armed)

lemma foldl_onTimeout_fires:
  "k < length (promises w) \<Longrightarrow> k \<notin> fst ` set (timers w) \<Longrightarrow>
   (promises w ! k = Pending \<and> k \<in> set js) \<or>
   (promises w ! k = Rejected HandshakeTimeout \<and> k \<notin> set (listeners w)) \<Longrightarrow>
     gone k (Rejected HandshakeTimeout) (foldl onTimeout w js)"
proof (induction js arbitrary: w)
  case Nil
  then show ?case by (auto simp: gone_def)
next
  case (Cons j js)
  have "(promises (onTimeout w j) ! k = Pending \<and> k \<in> set js) \<or>
        (promises (onTimeout w j) ! k = Rejected HandshakeTimeout \<and>
         k \<notin> set (listeners (onTimeout w j)))"
    using Cons.prems
    by (cases "j = k") (auto simp: onTimeout_def settle_at_same settle_def)
  moreover have "k < length (promises (onTimeout w j))" "k \<notin> fst ` set (timers (onTimeout w j))"
    using Cons.prems by (simp_all add: onTimeout_def)
  ultimately show ?case using Cons.IH [of "onTimeout w j"] by simp
qed

lemma clock_foldl_onTimeout [simp]: "clock (foldl onTimeout w js) = clock w"
  by (induction js arbitrary: w) (simp_all add: onTimeout_def)

lemma clock_elapse [simp]: "clock (elapse d w) = clock w + d"
  by (simp add: elapse_def Let_def)

lemma elapse_armed:
  assumes "armed k due w"
  shows "(clock w + d < due \<longrightarrow> armed k due (elapse d w)) \<and>
         (due \<le> clock w + d \<longrightarrow> gone k (Rejected HandshakeTimeout) (elapse d w))"
proof (intro conjI impI)
  let ?now = "clock w + d"
  let ?w0 = "w\<lparr>clock := ?now, timers := filter (\<lambda>(i, t). ?now < t) (timers w)\<rparr>"
  let ?fired = "map fst (filter (\<lambda>(i, t). t \<le> ?now) (timers w))"
  from assms have k: "k < length (promises w)" "promises w ! k = Pending"
    and l: "k \<in> set (listeners w)"
    and t: "(k, due) \<in> set (timers w)"
    and u: "\<forall>t. (k, t) \<in> set (timers w) \<longrightarrow> t = due"
    and c: "clock w < due"
    by (simp_all add: armed_def)
  have e: "elapse d w = foldl onTimeout ?w0 ?fired"
    by (simp add: elapse_def Let_def)
  {
    assume lt: "?now < due"
    have "k \<notin> set ?fired"
    proof
      assume "k \<in> set ?fired"
      then obtain t where "(k, t) \<in> set (timers w)" "t \<le> ?now" by auto
      with u lt show False by auto
    qed
    moreover have "armed k due ?w0"
      unfolding armed_def
    proof (intro conjI)
      show "\<forall>t. (k, t) \<in> set (timers ?w0) \<longrightarrow> t = due" using u by simp
    qed (use k l t lt in simp_all)
    ultimately show "armed k due (elapse d w)"
      unfolding e by (rule foldl_onTimeout_armed)
  }
  {
    assume ge: "due \<le> ?now"
    from t ge have "(k, due) \<in> set (filter (\<lambda>(i, t). t \<le> ?now) (timers w))" by simp
    then have "fst (k, due) \<in> fst ` set (filter (\<lambda>(i, t). t \<le> ?now) (timers w))"
      by (rule imageI)
    then have f: "k \<in> set ?fired" by simp
    have "k \<notin> fst ` set (timers ?w0)"
    proof
      assume "k \<in> fst ` set (timers ?w0)"
      then obtain t where "(k, t) \<in> set (timers w)" "?now < t" by auto
      with u ge show False by auto
    qed
    moreover have "k < length (promises ?w0)" using k by simp
    moreover have "promises ?w0 ! k = Pending \<and> k \<in> set ?fired" using k f by simp
    ultimately show "gone k (Rejected HandshakeTimeout) (elapse d w)"
      unfolding e by (intro foldl_onTimeout_fires) simp_all
  }
qed

lemma run_Cons [simp]: "run w (e # es) = run (step_world w e) es"
  by (simp add: run_def)

lemma run_Nil [simp]: "run w [] = w"
  by (simp add: run_def)

lemma run_append: "run w (es @ fs) = run (run w es) fs"
  by (simp add: run_def)

lemma run_elapse_armed:
  "armed k due w \<Longrightarrow>
     (clock w + sum_list ds < due \<longrightarrow> armed k due (run w (map Elapse ds))) \<and>
     (due \<le> clock w + sum_list ds \<longrightarrow> gone k (Rejected HandshakeTimeout) (run w (map Elapse ds)))"
proof (induction ds arbitrary: w)
  case Nil
  then show ?case by (auto simp: armed_def)
next
  case (Cons d ds)
  show ?case
  proof (cases "clock w + d < due")
    case True
    with elapse_armed [OF Cons.prems, of d] have "armed k due (elapse d w)" by simp
    from Cons.IH [OF this] show ?thesis by (simp add: add.assoc)
  next
    case False
    with elapse_armed [OF Cons.prems, of d] have "gone k (Rejected HandshakeTimeout) (elapse d w)"
      by simp
    then have "gone k (Rejected HandshakeTimeout) (run (elapse d w) (map Elapse ds))"
      by (rule run_gone)
    with False show ?thesis by simp
  qed
qed

lemma foldl_onBridgeReady_resolves:
  "activates h \<Longrightarrow> k < length (promises w) \<Longrightarrow>
   (promises w ! k = Pending \<and> k \<in> set js) \<or> gone k (Fulfilled ()) w \<Longrightarrow>
     gone k (Fulfilled ()) (foldl (onBridgeReady h) w js)"
proof (induction js arbitrary: w)
  case Nil
  then show ?case by auto
next
  case (Cons j js)
  have "(promises (onBridgeReady h w j) ! k = Pending \<and> k \<in> set js) \<or>
        gone k (Fulfilled ()) (onBridgeReady h w j)"
  proof (cases "gone k (Fulfilled ()) w")
    case True
    then show ?thesis by (simp add: onBridgeReady_gone)
  next
    case False
    with Cons.prems have p: "promises w ! k = Pending" "k \<in> set (j # js)" by auto
    note act = Cons.prems(1)
    show ?thesis
    proof (cases "j = k")
      case True
      with p Cons.prems(2) act have "gone k (Fulfilled ()) (onBridgeReady h w j)"
        by (auto simp: gone_def onBridgeReady_activates settle_at_same settle_def)
      then show ?thesis by simp
    next
      case False
      with p act show ?thesis by (auto simp: onBridgeReady_activates)
    qed
  qed
  moreover have "k < length (promises (onBridgeReady h w j))"
    using Cons.prems by (simp add: onBridgeReady_activates)
  ultimately show ?case using Cons.IH [of "onBridgeReady h w j"] Cons.prems(1) by simp
qed

lemma foldl_onBridgeReady_client:
  "activates h \<Longrightarrow> bridge (client w) = Some h \<and> isInitialized (client w) \<Longrightarrow>
     bridge (client (foldl (onBridgeReady h) w js)) = Some h \<and>
     isInitialized (client (foldl (onBridgeReady h) w js))"
  by (induction js arbitrary: w) (simp_all add: onBridgeReady_activates)

lemma bridge_onBridgeReady [simp]: "bridge (client (onBridgeReady h w j)) = Some h"
  by (cases "activates h") (simp_all add: onBridgeReady_activates onBridgeReady_fails)

lemma foldl_onBridgeReady_bridge:
  "bridge (client w) = Some h \<Longrightarrow> bridge (client (foldl (onBridgeReady h) w js)) = Some h"
  by (induction js arbitrary: w) simp_all

lemma foldl_onBridgeReady_fails:
  "\<not> activates h \<Longrightarrow> promises (foldl (onBridgeReady h) w js) = promises w"
  by (induction js arbitrary: w) (simp_all add: onBridgeReady_fails)

lemma foldl_onBridgeReady_removes:
  "k \<in> set js \<or> (k \<notin> set (listeners w) \<and> k \<notin> fst ` set (timers w)) \<Longrightarrow>
     k \<notin> set (listeners (foldl (onBridgeReady h) w js)) \<and>
     k \<notin> fst ` set (timers (foldl (onBridgeReady h) w js))"
proof (induction js arbitrary: w)
  case Nil
  then show ?case by simp
next
  case (Cons j js)
  have "k \<in> set js \<or> (k \<notin> set (listeners (onBridgeReady h w j)) \<and>
                        k \<notin> fst ` set (timers (onBridgeReady h w j)))"
    using Cons.prems
    by (cases "activates h"; cases "j = k")
       (auto simp: onBridgeReady_activates onBridgeReady_fails)
  from Cons.IH [OF this] show ?case by simp
qed

lemma dispatch_armed:
  assumes "armed k due w"
  shows "k \<notin> set (listeners (dispatch h w)) \<and> k \<notin> fst ` set (timers (dispatch h w)) \<and>
         bridge (client (dispatch h w)) = Some h \<and>
         (activates h \<longrightarrow> gone k (Fulfilled ()) (dispatch h w) \<and>
                           isInitialized (client (dispatch h w))) \<and>
         (\<not> activates h \<longrightarrow> orphaned k (dispatch h w))"
proof -
  from assms have k: "k < length (promises w)" "promises w ! k = Pending"
    "k \<in> set (listeners w)" by (simp_all add: armed_def)
  then obtain j js where l: "listeners w = j # js" by (cases "listeners w") auto
  have r: "k \<notin> set (listeners (dispatch h w)) \<and> k \<notin> fst ` set (timers (dispatch h w))"
    unfolding dispatch_def by (rule foldl_onBridgeReady_removes) (simp add: k)
  have b: "bridge (client (dispatch h w)) = Some h"
    unfolding dispatch_def l by (simp add: foldl_onBridgeReady_bridge)
  have a: "gone k (Fulfilled ()) (dispatch h w) \<and> isInitialized (client (dispatch h w))"
    if act: "activates h"
  proof -
    have "gone k (Fulfilled ()) (dispatch h w)"
      unfolding dispatch_def using act k by (intro foldl_onBridgeReady_resolves) auto
    moreover have "bridge (client (foldl (onBridgeReady h) (onBridgeReady h w j) js)) = Some h \<and>
        isInitialized (client (foldl (onBridgeReady h) (onBridgeReady h w j) js))"
      by (rule foldl_onBridgeReady_client [OF act]) (simp add: onBridgeReady_activates [OF act])
    ultimately show ?thesis using l by (simp add: dispatch_def)
  qed
  have o: "orphaned k (dispatch h w)" if "\<not> activates h"
  proof -
    from that have "promises (dispatch h w) = promises w"
      by (simp add: dispatch_def foldl_onBridgeReady_fails)
    with r k show ?thesis by (simp add: orphaned_def)
  qed
  from r b a o show ?thesis by blast
qed

lemma listeners_foldl_onTimeout: "set (listeners (foldl onTimeout w js)) \<subseteq> set (listeners w)"
proof (induction js arbitrary: w)
  case Nil
  show ?case by simp
next
  case (Cons j js)
  have "set (listeners (foldl onTimeout (onTimeout w j) js)) \<subseteq> set (listeners (onTimeout w j))"
    by (rule Cons.IH)
  also have "\<dots> \<subseteq> set (listeners w)"
    by (auto simp: onTimeout_def)
  finally show ?case by simp
qed

lemma listeners_elapse: "set (listeners (elapse d w)) \<subseteq> set (listeners w)"
proof -
  let ?w0 = "w\<lparr>clock := clock w + d,
               timers := filter (\<lambda>(i, due). clock w + d < due) (timers w)\<rparr>"
  have "set (listeners (foldl onTimeout ?w0
          (map fst (filter (\<lambda>(i, due). due \<le> clock w + d) (timers w))))) \<subseteq> set (listeners ?w0)"
    by (rule listeners_foldl_onTimeout)
  then show ?thesis by (simp add: elapse_def Let_def)
qed

lemmas eval_world =
  new_world_def constructor_def init_def dispatch_def onBridgeReady_def completed_def elapse_def
  onTimeout_def settle_at_def settle_def Let_def

lemma listeners_run_elapse: "set (listeners (run w (map Elapse ds))) \<subseteq> set (listeners w)"
proof (induction ds arbitrary: w)
  case Nil
  show ?case by simp
next
  case (Cons d ds)
  have "set (listeners (run (elapse d w) (map Elapse ds))) \<subseteq> set (listeners (elapse d w))"
    by (rule Cons.IH)
  also have "\<dots> \<subseteq> set (listeners w)" by (rule listeners_elapse)
  finally show ?case by simp
qed

lemma second_init_is_rejected:
  "isInitialized (client w) \<Longrightarrow>
     promises (init w) ! length (promises w) = Rejected AlreadyConnected"
  by (cases "parent_pulsar w") (simp_all add: init_def Let_def settle_def)

theorem send_before_handshake_is_rejected_witness:
  "list_all delivers_working [CallInit, Elapse 5000, BridgeReady legacy_bridge] \<and>
   \<not> connected (run (new_world None) [CallInit, Elapse 5000, BridgeReady legacy_bridge]) \<and>
   pulsar_send (client (run (new_world None) [CallInit, Elapse 5000, BridgeReady legacy_bridge]))
      (JObj [(''type'', JStr ''read'')]) [] = (Rejected NotConnected, [])"
proof -
  have w: "list_all delivers_working [CallInit, Elapse 5000, BridgeReady legacy_bridge]"
    by (simp add: activates_def legacy_bridge_def)
  have c: "\<not> connected (run (new_world None) [CallInit, Elapse 5000, BridgeReady legacy_bridge])"
    by (simp add: connected_def eval_world)
  from send_before_handshake_is_rejected [OF w c] w c show ?thesis
    by simp
qed

text \<open>
  A handle without \<open>version\<close> whose \<open>init()\<close> throws: the call of \<open>init()\<close> on the
  client stays unresolved, the bridge is assigned, and \<open>_send\<close> reaches the host.
\<close>

theorem send_reaches_host_while_pending_counterexample:
  "\<not> connected (run (new_world None) [CallInit, BridgeReady broken_bridge]) \<and>
   promises (run (new_world None) [CallInit, BridgeReady broken_bridge]) = [Pending] \<and>
   pulsar_send (client (run (new_world None) [CallInit, BridgeReady broken_bridge]))
      (JObj [(''type'', JStr ''read'')]) [] =
     (Fulfilled (JNum 7), [JObj [(''type'', JStr ''read'')]])"
  by (simp add: connected_def eval_world broken_bridge_def pulsar_send_def)

text \<open>
  C4. Let \<open>init()\<close> be called on a client that is not initialized, with no embedded
  host. If time passes up to the 5000 ms deadline or beyond without a ready event, the
  promise of the call is rejected with the timeout error and its listener is removed;
  whatever happens afterwards the promise stays so, and where no other handshake is
  under way a ready event delivered afterwards changes nothing at all. If the ready
  event comes while less than 5000 ms have passed, then for every handle it delivers
  the listener is removed, the timer is taken out of the queue, the client holds the
  handle, and whatever happens afterwards the promise is never rejected with the timeout
  error. The promise is then fulfilled for good, with the client initialized, when the
  handle has a \<open>version\<close> or an \<open>init()\<close> that returns, and pending for good
  otherwise.
\<close>

theorem handshake_race:
  assumes "parent_pulsar w = None" and "\<not> isInitialized (client w)" and "calls_known w"
  shows "(5000 \<le> sum_list ds \<longrightarrow>
            promises (run (init w) (map Elapse ds)) ! length (promises w) =
              Rejected HandshakeTimeout \<and>
            length (promises w) \<notin> set (listeners (run (init w) (map Elapse ds))) \<and>
            promises (run (run (init w) (map Elapse ds)) es) ! length (promises w) =
              Rejected HandshakeTimeout \<and>
            (listeners w = [] \<longrightarrow>
               dispatch h (run (init w) (map Elapse ds)) = run (init w) (map Elapse ds))) \<and>
         (sum_list ds' < 5000 \<longrightarrow>
            length (promises w) \<notin> set (listeners (dispatch h (run (init w) (map Elapse ds')))) \<and>
            length (promises w) \<notin> fst ` set (timers (dispatch h (run (init w) (map Elapse ds')))) \<and>
            bridge (client (dispatch h (run (init w) (map Elapse ds')))) = Some h \<and>
            promises (run (dispatch h (run (init w) (map Elapse ds'))) es) ! length (promises w) \<noteq>
              Rejected HandshakeTimeout \<and>
            (activates h \<longrightarrow>
               promises (dispatch h (run (init w) (map Elapse ds'))) ! length (promises w) =
                 Fulfilled () \<and>
               isInitialized (client (dispatch h (run (init w) (map Elapse ds')))) \<and>
               promises (run (dispatch h (run (init w) (map Elapse ds'))) es) !
                 length (promises w) = Fulfilled ()) \<and>
            (\<not> activates h \<longrightarrow>
               promises (run (dispatch h (run (init w) (map Elapse ds'))) es) !
                 length (promises w) = Pending))"
proof (intro conjI impI)
  let ?k = "length (promises w)"
  have a: "armed ?k (clock w + 5000) (init w)"
    by (rule init_armed [OF assms])
  have c: "clock (init w) = clock w"
    using assms(1) by (simp add: init_def Let_def)
  {
    assume late: "5000 \<le> sum_list ds"
    let ?w2 = "run (init w) (map Elapse ds)"
    from run_elapse_armed [OF a, of ds] late c
    have g: "gone ?k (Rejected HandshakeTimeout) ?w2" by simp
    then show "promises ?w2 ! ?k = Rejected HandshakeTimeout" "?k \<notin> set (listeners ?w2)"
      by (simp_all add: gone_def)
    from run_gone [OF g, of es]
    show "promises (run ?w2 es) ! ?k = Rejected HandshakeTimeout" by (simp add: gone_def)
    {
      assume "listeners w = []"
      with assms(1) have "listeners (init w) = [?k]" by (simp add: init_def Let_def)
      with listeners_run_elapse [of "init w" ds] have "set (listeners ?w2) \<subseteq> {?k}" by simp
      with g have "listeners ?w2 = []"
        by (cases "listeners ?w2") (auto simp: gone_def)
      then show "dispatch h ?w2 = ?w2" by (simp add: dispatch_def)
    }
  }
  {
    assume early: "sum_list ds' < 5000"
    let ?w3 = "dispatch h (run (init w) (map Elapse ds'))"
    from run_elapse_armed [OF a, of ds'] early c
    have "armed ?k (clock w + 5000) (run (init w) (map Elapse ds'))" by simp
    from dispatch_armed [OF this, of h]
    have r: "?k \<notin> set (listeners ?w3)" "?k \<notin> fst ` set (timers ?w3)"
      and b: "bridge (client ?w3) = Some h"
      and f: "activates h \<Longrightarrow> gone ?k (Fulfilled ()) ?w3"
      and i: "activates h \<Longrightarrow> isInitialized (client ?w3)"
      and o: "\<not> activates h \<Longrightarrow> orphaned ?k ?w3"
      by simp_all
    from r show "?k \<notin> set (listeners ?w3)" "?k \<notin> fst ` set (timers ?w3)" .
    from b show "bridge (client ?w3) = Some h" .
    have stay_f: "promises (run ?w3 es) ! ?k = Fulfilled ()" if "activates h"
      using run_gone [OF f [OF that], of es] by (simp add: gone_def)
    have stay_p: "promises (run ?w3 es) ! ?k = Pending" if "\<not> activates h"
      using run_orphaned [OF o [OF that], of es] by (simp add: orphaned_def)
    show "promises (run ?w3 es) ! ?k \<noteq> Rejected HandshakeTimeout"
      using stay_f stay_p by (cases "activates h") simp_all
    {
      assume act: "activates h"
      from f [OF act] show "promises ?w3 ! ?k = Fulfilled ()" by (simp add: gone_def)
      from i [OF act] show "isInitialized (client ?w3)" .
      from stay_f [OF act] show "promises (run ?w3 es) ! ?k = Fulfilled ()" .
    }
    {
      assume "\<not> activates h"
      from stay_p [OF this] show "promises (run ?w3 es) ! ?k = Pending" .
    }
  }
qed

theorem handshake_race_witness:
  "promises (run (init (new_world None)) [Elapse 2000, Elapse 3000]) ! 0 = Rejected HandshakeTimeout \<and>
   0 \<notin> set (listeners (run (init (new_world None)) [Elapse 2000, Elapse 3000])) \<and>
   promises (run (run (init (new_world None)) [Elapse 2000, Elapse 3000])
               [CallInit, BridgeReady legacy_bridge]) ! 0 = Rejected HandshakeTimeout \<and>
   dispatch legacy_bridge (run (init (new_world None)) [Elapse 2000, Elapse 3000]) =
     run (init (new_world None)) [Elapse 2000, Elapse 3000] \<and>
   promises (dispatch legacy_bridge (run (init (new_world None)) [Elapse 4999])) ! 0 = Fulfilled () \<and>
   0 \<notin> set (listeners (dispatch legacy_bridge (run (init (new_world None)) [Elapse 4999]))) \<and>
   0 \<notin> fst ` set (timers (dispatch legacy_bridge (run (init (new_world None)) [Elapse 4999]))) \<and>
   bridge (client (dispatch legacy_bridge (run (init (new_world None)) [Elapse 4999]))) =
     Some legacy_bridge \<and>
   isInitialized (client (dispatch legacy_bridge (run (init (new_world None)) [Elapse 4999]))) \<and>
   promises (run (dispatch legacy_bridge (run (init (new_world None)) [Elapse 4999]))
               [CallInit, BridgeReady legacy_bridge]) ! 0 = Fulfilled () \<and>
   0 \<notin> set (listeners (dispatch broken_bridge (run (init (new_world None)) [Elapse 4999]))) \<and>
   0 \<notin> fst ` set (timers (dispatch broken_bridge (run (init (new_world None)) [Elapse 4999]))) \<and>
   promises (run (dispatch broken_bridge (run (init (new_world None)) [Elapse 4999]))
               [Elapse 5000, BridgeReady legacy_bridge]) ! 0 = Pending"
proof -
  have h: "parent_pulsar (new_world None) = None" "\<not> isInitialized (client (new_world None))"
    "calls_known (new_world None)"
    by (simp_all add: new_world_def constructor_def calls_known_def)
  have p: "length (promises (new_world None)) = 0" "listeners (new_world None) = []"
    by (simp_all add: new_world_def)
  have a: "activates legacy_bridge" "\<not> activates broken_bridge"
    by (simp_all add: activates_def legacy_bridge_def broken_bridge_def)
  from handshake_race [OF h, of "[2000, 3000]" "[CallInit, BridgeReady legacy_bridge]"
         legacy_bridge "[4999]"]
       handshake_race [OF h, of "[2000, 3000]" "[Elapse 5000, BridgeReady legacy_bridge]"
         broken_bridge "[4999]"]
       a
  show ?thesis unfolding p by simp
qed

text \<open>
  C1. A second \<open>init()\<close> on an initialized client rejects its promise with the
  already-initialized error (lemma \<open>second_init_is_rejected\<close>). But the executor has no
  \<open>return\<close> after that \<open>reject\<close> and goes on. On a client made ready by the native
  handshake, with no embedded host, the second call registers a listener and arms a
  timer; a further ready event then replaces the bridge and calls \<open>init()\<close> on the
  new handle, the second such call.
\<close>

theorem second_init_goes_on:
  "isInitialized (client (run (new_world None) [CallInit, BridgeReady legacy_bridge])) \<and>
   listeners (run (new_world None) [CallInit, BridgeReady legacy_bridge]) = [] \<and>
   timers (run (new_world None) [CallInit, BridgeReady legacy_bridge]) = [] \<and>
   bridge_inits (run (new_world None) [CallInit, BridgeReady legacy_bridge]) = 1 \<and>
   promises (run (new_world None) [CallInit, BridgeReady legacy_bridge, CallInit]) =
     [Fulfilled (), Rejected AlreadyConnected] \<and>
   listeners (run (new_world None) [CallInit, BridgeReady legacy_bridge, CallInit]) = [1] \<and>
   timers (run (new_world None) [CallInit, BridgeReady legacy_bridge, CallInit]) = [(1, 5000)] \<and>
   bridge (client (run (new_world None)
       [CallInit, BridgeReady legacy_bridge, CallInit, BridgeReady second_bridge])) =
     Some second_bridge \<and>
   bridge_inits (run (new_world None)
       [CallInit, BridgeReady legacy_bridge, CallInit, BridgeReady second_bridge]) = 2"
  by (simp add: eval_world legacy_bridge_def second_bridge_def)


end
